theory Spec2Isabelle
  imports Complex_Main "HOL-Library.AList" "HOL-Library.Log_Nat"
begin

section \<open>Data model (models/data-flow-models)\<close>

text \<open>
  The numbers of a request are finite. Grid coordinates, the turn counter and the plan
  length are integers (\<open>int\<close>); quantities that the game makes fractional (fuel, hull,
  cargo, money, rule constants) are rationals (\<open>rat\<close>), each the exact value of a double.
  Comparing two such numbers is exact. Where the program computes with fractional
  numbers, in the fuel-return hint, every operation rounds as doubles do; that
  arithmetic is defined below. \<open>NaN\<close> and infinities in a request and plan lengths that
  are not integers are outside the model.

  An optional field \<open>f?: T\<close> is a \<open>T option\<close>; \<open>None\<close> stands for \<open>undefined\<close> (and
  \<open>null\<close>). Record fields carry the name of the enclosing object as a prefix, since
  \<open>cur\<close>, \<open>max\<close> and \<open>x\<close> occur in several interfaces. The field \<open>hull\<close> of the state is
  \<open>hullState\<close>, as \<open>hull\<close> is an operator of the library.
\<close>

record Position =
  pos_x :: int
  pos_y :: int
  pos_depth :: int

record FuelState =
  fuel_cur :: rat
  fuel_max :: rat

record HullState =
  hull_cur :: rat
  hull_max :: rat

record CargoState =
  cargo_cur :: rat
  cargo_cap :: rat

record StationPosition =
  station_x :: int
  station_y :: int

record Stations =
  stations_fuel :: "StationPosition option"
  stations_shop :: "StationPosition option"

text \<open>
  \<open>digFuelBase\<close> is not declared in the interface of \<open>rules\<close>; the advisors read it through
  a cast and test \<open>typeof ... === "number"\<close>. \<open>None\<close> is every value that fails the test.
\<close>

record DigFuelBase =
  dig_dirt :: "rat option"
  dig_lava :: "rat option"

record Rules =
  baseTurnFuel :: "rat option"
  digFuelBase :: "DigFuelBase option"

text \<open>
  \<open>localScan\<close> is declared \<open>string[]\<close>, but request validation only checks that the key
  is present, and \<open>updateMemory\<close> guards against both a non-array scan and a non-string
  row. Both cases are values of the model.
\<close>

datatype scan_row = Row string | NotAString

datatype scan = ScanRows "scan_row list" | NotAnArray

record State =
  turn :: int
  pos :: Position
  fuel :: FuelState
  hullState :: HullState
  cargo :: CargoState
  money :: rat
  localScan :: scan
  atSurface :: "bool option"
  atFuelStation :: "bool option"
  atUpgradeShop :: "bool option"
  stations :: "Stations option"
  rules :: "Rules option"

text \<open>
  An action as it exists at run time: \<open>dir\<close> and \<open>kind\<close> are whatever string the parser
  cut out of a token (or \<open>undefined\<close>), not yet a member of the declared unions.
\<close>

datatype action =
    MOVE "string option" string
  | UPGRADE "string option" string
  | SURFACE_OPS string

text \<open>Truthiness of an optional boolean flag.\<close>

definition truthy :: "bool option \<Rightarrow> bool" where
  "truthy b = (case b of Some v \<Rightarrow> v | None \<Rightarrow> False)"

section \<open>Fallback planner\<close>

text \<open>
  \<open>clampPlanLength\<close> is \<open>Math.max(1, Math.min(10, planLength || 1))\<close>; on integers
  \<open>planLength || 1\<close> replaces \<open>0\<close> by \<open>1\<close>.
\<close>

definition clampPlanLength :: "int \<Rightarrow> int" where
  "clampPlanLength planLength = max 1 (min 10 (if planLength = 0 then 1 else planLength))"

text \<open>One iteration of the loop of \<open>planActions\<close>: the action pushed for a slot.\<close>

definition planSlot :: "State \<Rightarrow> action" where
  "planSlot state =
     (if truthy (atFuelStation state)
         \<and> (cargo_cur (cargo state) > 0 \<or> fuel_cur (fuel state) < fuel_max (fuel state))
      then SURFACE_OPS ''Refuel and cash in at station.''
      else if truthy (atUpgradeShop state) \<and> money state \<ge> 150
      then UPGRADE (Some ''FUEL'') ''Buying fuel upgrade.''
      else MOVE (Some ''D'') ''Server plan: move down.'')"

text \<open>The loop \<open>for (i = 0; i < n; i++)\<close>, with the list built so far as accumulator.\<close>

function planLoop :: "State \<Rightarrow> int \<Rightarrow> int \<Rightarrow> action list \<Rightarrow> action list" where
  "planLoop state n i actions =
     (if i < n then planLoop state n (i + 1) (actions @ [planSlot state]) else actions)"
  by pat_completeness auto
termination
  by (relation "measure (\<lambda>(state, n, i, actions). nat (n - i))") auto

declare planLoop.simps [simp del]

definition planActions :: "State \<Rightarrow> int \<Rightarrow> action list" where
  "planActions state planLength = planLoop state (clampPlanLength planLength) 0 []"

text \<open>
  The synthetic state that \<open>sanitizeActions\<close> hands to the fallback planner when nothing
  survives sanitization. Optional fields that the literal leaves out are \<open>None\<close>.
\<close>

definition syntheticState :: State where
  "syntheticState =
     \<lparr> turn = 0,
       pos = \<lparr> pos_x = 0, pos_y = 0, pos_depth = 0 \<rparr>,
       fuel = \<lparr> fuel_cur = 1, fuel_max = 1 \<rparr>,
       hullState = \<lparr> hull_cur = 1, hull_max = 1 \<rparr>,
       cargo = \<lparr> cargo_cur = 0, cargo_cap = 0 \<rparr>,
       money = 0,
       localScan = ScanRows [],
       atSurface = None,
       atFuelStation = Some False,
       atUpgradeShop = Some False,
       stations = None,
       rules = None \<rparr>"

section \<open>Action sanitizer\<close>

text \<open>
  \<open>a.reason || fallback\<close>: an empty reason is falsy. The tests \<open>!a\<close> and
  \<open>typeof a.type !== "string"\<close> and the case of an unknown \<open>type\<close> cannot occur for a
  value of the \<open>action\<close> datatype.
\<close>

definition reasonOr :: "string \<Rightarrow> string \<Rightarrow> string" where
  "reasonOr reason fallback = (if reason = [] then fallback else reason)"

definition dirSet :: "string list" where
  "dirSet = [''L'', ''R'', ''U'', ''D'']"

definition kindSet :: "string list" where
  "kindSet = [''FUEL'', ''CARGO'', ''HULL'', ''DRILL'']"

definition sanitizeOne :: "action \<Rightarrow> action" where
  "sanitizeOne a =
     (case a of
        MOVE dir reason \<Rightarrow>
          MOVE (case dir of
                  Some d \<Rightarrow> if d \<in> set dirSet then Some d else Some ''D''
                | None \<Rightarrow> Some ''D'')
               (reasonOr reason ''Fallback move.'')
      | UPGRADE kind reason \<Rightarrow>
          UPGRADE (case kind of
                     Some k \<Rightarrow> if k \<in> set kindSet then Some k else Some ''FUEL''
                   | None \<Rightarrow> Some ''FUEL'')
                  (reasonOr reason ''Fallback upgrade.'')
      | SURFACE_OPS reason \<Rightarrow> SURFACE_OPS (reasonOr reason ''Fallback surface ops.''))"

text \<open>The loop \<open>for (const a of actions)\<close> with its \<open>break\<close> once \<open>out\<close> is full.\<close>

fun sanitizeLoop :: "int \<Rightarrow> action list \<Rightarrow> action list \<Rightarrow> action list" where
  "sanitizeLoop maxLen [] out = out"
| "sanitizeLoop maxLen (a # rest) out =
     (if int (length out) \<ge> maxLen then out
      else sanitizeLoop maxLen rest (out @ [sanitizeOne a]))"

definition sanitizeActions :: "action list \<Rightarrow> int \<Rightarrow> action list" where
  "sanitizeActions actions planLength =
     (let maxLen = clampPlanLength planLength;
          out = sanitizeLoop maxLen actions []
      in if out \<noteq> [] then out else planActions syntheticState maxLen)"

section \<open>Text primitives\<close>

text \<open>
  Texts are \<open>string\<close>s: one \<open>char\<close> per UTF-16 code unit, which covers every text whose
  code units lie below 256. In that range the white space of \<open>\s\<close> and of \<open>trim\<close> is
  TAB, LF, VT, FF, CR, SPACE and NBSP.
\<close>

definition isSpace :: "char \<Rightarrow> bool" where
  "isSpace c \<longleftrightarrow>
     c \<in> set [CHR 0x09, CHR 0x0A, CHR 0x0B, CHR 0x0C, CHR 0x0D, CHR 0x20, CHR 0xA0]"

definition trim :: "string \<Rightarrow> string" where
  "trim s = rev (dropWhile isSpace (rev (dropWhile isSpace s)))"

text \<open>
  \<open>toUpperCase\<close> maps the letters \<open>a\<close> to \<open>z\<close> to \<open>A\<close> to \<open>Z\<close>. Code units from 128 on
  are left as they are: upper-casing turns none of them into a character of the token
  grammar (the only ASCII it produces there is \<open>SS\<close>, which no token contains), so the
  outcome of every comparison with a token below is the one of the program.
\<close>

definition toUpperChar :: "char \<Rightarrow> char" where
  "toUpperChar c =
     (case map_of (zip ''abcdefghijklmnopqrstuvwxyz'' ''ABCDEFGHIJKLMNOPQRSTUVWXYZ'') c of
        Some u \<Rightarrow> u
      | None \<Rightarrow> c)"

definition toUpperCase :: "string \<Rightarrow> string" where
  "toUpperCase s = map toUpperChar s"

text \<open>\<open>s.split(/\s+/)\<close>: every maximal run of white space separates two pieces.\<close>

function splitWs :: "string \<Rightarrow> string list" where
  "splitWs [] = [[]]"
| "splitWs (c # cs) =
     (if isSpace c then [] # splitWs (dropWhile isSpace cs)
      else (case splitWs cs of [] \<Rightarrow> [[c]] | t # ts \<Rightarrow> (c # t) # ts))"
  by pat_completeness auto
termination
  by (relation "measure length") (auto simp: le_imp_less_Suc length_dropWhile_le)

text \<open>\<open>executionText.trim().split(/\s+/).filter(Boolean)\<close>\<close>

definition tokenize :: "string \<Rightarrow> string list" where
  "tokenize executionText = filter (\<lambda>t. t \<noteq> []) (splitWs (trim executionText))"

text \<open>\<open>s.startsWith(p)\<close>, returning what follows the prefix.\<close>

fun stripPrefix :: "string \<Rightarrow> string \<Rightarrow> string option" where
  "stripPrefix [] s = Some s"
| "stripPrefix (p # ps) [] = None"
| "stripPrefix (p # ps) (c # cs) = (if p = c then stripPrefix ps cs else None)"

definition startsWith :: "string \<Rightarrow> string \<Rightarrow> bool" where
  "startsWith s p = (stripPrefix p s \<noteq> None)"

text \<open>\<open>s.split(sep)\<close> for a separator of one character.\<close>

fun splitOn :: "char \<Rightarrow> string \<Rightarrow> string list" where
  "splitOn sep [] = [[]]"
| "splitOn sep (c # cs) =
     (if c = sep then [] # splitOn sep cs
      else (case splitOn sep cs of [] \<Rightarrow> [[c]] | t # ts \<Rightarrow> (c # t) # ts))"

text \<open>\<open>t.split(":", 2)[1]\<close>; reading past the end of the array gives \<open>undefined\<close>.\<close>

definition afterColon :: "string \<Rightarrow> string option" where
  "afterColon t =
     (case take 2 (splitOn CHR '':'' t) of
        _ # piece # _ \<Rightarrow> Some piece
      | _ \<Rightarrow> None)"

section \<open>Token grammar: parsing and validation\<close>

definition parseToken :: "string \<Rightarrow> action option" where
  "parseToken raw =
     (let t = toUpperCase (trim raw)
      in if t = ''SURFACE_OPS'' then Some (SURFACE_OPS ''Planned action.'')
         else if startsWith t ''UPGRADE:'' then Some (UPGRADE (afterColon t) ''Planned action.'')
         else if startsWith t ''MOVE:'' then Some (MOVE (afterColon t) ''Planned action.'')
         else None)"

text \<open>The loop \<open>for (const raw of tokens)\<close>; a token of no known shape pushes nothing.\<close>

fun parseLoop :: "string list \<Rightarrow> action list \<Rightarrow> action list" where
  "parseLoop [] actions = actions"
| "parseLoop (raw # tokens) actions =
     parseLoop tokens (case parseToken raw of Some a \<Rightarrow> actions @ [a] | None \<Rightarrow> actions)"

definition parseActionTokens :: "string \<Rightarrow> action list" where
  "parseActionTokens executionText = parseLoop (tokenize executionText) []"

text \<open>
  The token schema: the literal \<open>SURFACE_OPS\<close>, or a match of \<open>/^MOVE:(U|D|L|R)$/\<close>, or a
  match of \<open>/^UPGRADE:(FUEL|CARGO|HULL|DRILL)$/\<close>. Both patterns are anchored at both
  ends, so a match is the prefix followed by exactly one of the alternatives.
\<close>

definition tokenSchema :: "string \<Rightarrow> bool" where
  "tokenSchema t \<longleftrightarrow>
     t = ''SURFACE_OPS''
     \<or> (case stripPrefix ''MOVE:'' t of
           Some r \<Rightarrow> r \<in> set [''U'', ''D'', ''L'', ''R'']
         | None \<Rightarrow> False)
     \<or> (case stripPrefix ''UPGRADE:'' t of
           Some r \<Rightarrow> r \<in> set [''FUEL'', ''CARGO'', ''HULL'', ''DRILL'']
         | None \<Rightarrow> False)"

text \<open>
  \<open>validateExecution\<close> returns the outcome of
  \<open>z.array(tokenSchema).min(1).max(planLength).safeParse(...)\<close> on the upper-cased tokens,
  together with the tokens.
\<close>

record Validation =
  v_success :: bool
  v_tokens :: "string list"

definition validateExecution :: "string \<Rightarrow> int \<Rightarrow> Validation" where
  "validateExecution executionText planLength =
     (let toks = tokenize executionText;
          upper = map toUpperCase toks
      in \<lparr> v_success = (1 \<le> length upper \<and> int (length upper) \<le> planLength
                       \<and> list_all tokenSchema upper),
           v_tokens = toks \<rparr>)"

section \<open>Arithmetic of JavaScript numbers\<close>

text \<open>
  A value of the type \<open>number\<close>: a finite double, given by its exact value, an infinity, or
  \<open>NaN\<close>. The sign of a zero is not kept: the program divides only by the result of a
  \<open>Math.max(1, ...)\<close>, never by a zero, and a zero of either sign is written \<open>0\<close> in the
  payload.
\<close>

datatype jsnum = Fin rat | PInf | NInf | NaN

definition pow2 :: "int \<Rightarrow> rat" where
  "pow2 e = (if 0 \<le> e then 2 ^ nat e else 1 / 2 ^ nat (- e))"

text \<open>The exponent \<open>e\<close> with \<open>2 ^ e \<le> a < 2 ^ (e + 1)\<close>, for a positive \<open>a\<close>.\<close>

definition floorLog2 :: "rat \<Rightarrow> int" where
  "floorLog2 a =
     (case quotient_of a of
        (p, q) \<Rightarrow> (let e0 = bitlen p - bitlen q in if pow2 e0 \<le> a then e0 else e0 - 1))"

text \<open>The nearest integer, the even one of two that are equally near.\<close>

definition roundHalfEven :: "rat \<Rightarrow> int" where
  "roundHalfEven x =
     (let f = \<lfloor>x\<rfloor>; d = x - of_int f
      in if d < 1 / 2 then f
         else if d > 1 / 2 then f + 1
         else if even f then f else f + 1)"

text \<open>
  Rounding of an exact result to binary64, to nearest with ties to even: 53 significant
  bits, the least exponent \<open>-1022\<close> (below it the spacing stays \<open>2 ^ -1074\<close>), and an
  infinity once the rounded value reaches \<open>2 ^ 1024\<close>.
\<close>

definition roundDouble :: "rat \<Rightarrow> jsnum" where
  "roundDouble q =
     (if q = 0 then Fin 0
      else (let a = \<bar>q\<bar>;
                e = floorLog2 a;
                ulp = pow2 (max e (- 1022) - 52);
                n = roundHalfEven (a / ulp)
            in if 1024 \<le> e \<or> (e = 1023 \<and> 2 ^ 53 \<le> n)
               then (if 0 < q then PInf else NInf)
               else Fin (if 0 < q then of_int n * ulp else - (of_int n * ulp))))"

text \<open>The operators \<open>+\<close>, \<open>-\<close>, \<open>*\<close>, \<open>/\<close> and \<open><=\<close> on numbers.\<close>

fun jsAdd :: "jsnum \<Rightarrow> jsnum \<Rightarrow> jsnum" where
  "jsAdd (Fin a) (Fin b) = roundDouble (a + b)"
| "jsAdd NaN y = NaN"
| "jsAdd x NaN = NaN"
| "jsAdd PInf NInf = NaN"
| "jsAdd NInf PInf = NaN"
| "jsAdd PInf y = PInf"
| "jsAdd x PInf = PInf"
| "jsAdd NInf y = NInf"
| "jsAdd x NInf = NInf"

fun jsNeg :: "jsnum \<Rightarrow> jsnum" where
  "jsNeg (Fin a) = Fin (- a)"
| "jsNeg PInf = NInf"
| "jsNeg NInf = PInf"
| "jsNeg NaN = NaN"

definition jsSub :: "jsnum \<Rightarrow> jsnum \<Rightarrow> jsnum" where
  "jsSub x y = jsAdd x (jsNeg y)"

text \<open>The infinity of the sign of \<open>s\<close>; zero times an infinity is \<open>NaN\<close>.\<close>

definition signedInf :: "rat \<Rightarrow> jsnum" where
  "signedInf s = (if s = 0 then NaN else if 0 < s then PInf else NInf)"

fun jsMul :: "jsnum \<Rightarrow> jsnum \<Rightarrow> jsnum" where
  "jsMul (Fin a) (Fin b) = roundDouble (a * b)"
| "jsMul NaN y = NaN"
| "jsMul x NaN = NaN"
| "jsMul (Fin a) PInf = signedInf a"
| "jsMul (Fin a) NInf = signedInf (- a)"
| "jsMul PInf (Fin b) = signedInf b"
| "jsMul NInf (Fin b) = signedInf (- b)"
| "jsMul PInf PInf = PInf"
| "jsMul NInf NInf = PInf"
| "jsMul PInf NInf = NInf"
| "jsMul NInf PInf = NInf"

fun jsDiv :: "jsnum \<Rightarrow> jsnum \<Rightarrow> jsnum" where
  "jsDiv (Fin a) (Fin b) = (if b = 0 then signedInf a else roundDouble (a / b))"
| "jsDiv NaN y = NaN"
| "jsDiv x NaN = NaN"
| "jsDiv (Fin a) y = Fin 0"
| "jsDiv PInf (Fin b) = (if 0 \<le> b then PInf else NInf)"
| "jsDiv NInf (Fin b) = (if 0 \<le> b then NInf else PInf)"
| "jsDiv x y = NaN"

fun jsLe :: "jsnum \<Rightarrow> jsnum \<Rightarrow> bool" where
  "jsLe (Fin a) (Fin b) = (a \<le> b)"
| "jsLe NaN y = False"
| "jsLe x NaN = False"
| "jsLe NInf y = True"
| "jsLe x PInf = True"
| "jsLe x y = False"

text \<open>\<open>Math.max\<close> of two numbers, \<open>Math.abs\<close> and \<open>Math.floor\<close>.\<close>

fun jsMax :: "jsnum \<Rightarrow> jsnum \<Rightarrow> jsnum" where
  "jsMax (Fin a) (Fin b) = Fin (max a b)"
| "jsMax NaN y = NaN"
| "jsMax x NaN = NaN"
| "jsMax PInf y = PInf"
| "jsMax x PInf = PInf"
| "jsMax NInf y = y"
| "jsMax x NInf = x"

fun jsAbs :: "jsnum \<Rightarrow> jsnum" where
  "jsAbs (Fin a) = Fin \<bar>a\<bar>"
| "jsAbs PInf = PInf"
| "jsAbs NInf = PInf"
| "jsAbs NaN = NaN"

fun jsFloor :: "jsnum \<Rightarrow> jsnum" where
  "jsFloor (Fin a) = Fin (of_int \<lfloor>a\<rfloor>)"
| "jsFloor x = x"

section \<open>Tagged sections of the model's text\<close>

text \<open>
  The patterns are built with the flag \<open>i\<close>: a character of the text matches a character
  of the tag when both have the same upper-case form. \<open>stripPrefixCI p s\<close> matches \<open>p\<close> at
  the start of \<open>s\<close> and returns what follows.
\<close>

fun stripPrefixCI :: "string \<Rightarrow> string \<Rightarrow> string option" where
  "stripPrefixCI [] s = Some s"
| "stripPrefixCI (p # ps) [] = None"
| "stripPrefixCI (p # ps) (c # cs) =
     (if toUpperChar p = toUpperChar c then stripPrefixCI ps cs else None)"

text \<open>The leftmost occurrence of a literal: the text before it and the text after it.\<close>

fun findCI :: "string \<Rightarrow> string \<Rightarrow> (string \<times> string) option" where
  "findCI pat [] = (case stripPrefixCI pat [] of Some r \<Rightarrow> Some ([], r) | None \<Rightarrow> None)"
| "findCI pat (c # cs) =
     (case stripPrefixCI pat (c # cs) of
        Some r \<Rightarrow> Some ([], r)
      | None \<Rightarrow>
          (case findCI pat cs of
             Some (before, after) \<Rightarrow> Some (c # before, after)
           | None \<Rightarrow> None))"

text \<open>
  \<open>text.match(/<tag>([\s\S]*?)<\/tag>/i)\<close>: the match starts at the leftmost opening tag
  that has a closing tag after it, which is the leftmost opening tag of the text whenever
  there is a match at all, and the lazy group ends at the first closing tag after it.
\<close>

definition extractTaggedText :: "string \<Rightarrow> string \<Rightarrow> string option" where
  "extractTaggedText txt tagName =
     (case findCI (''<'' @ tagName @ ''>'') txt of
        None \<Rightarrow> None
      | Some (before, rest) \<Rightarrow>
          (case findCI (''</'' @ tagName @ ''>'') rest of
             None \<Rightarrow> None
           | Some (body, after) \<Rightarrow> Some (trim body)))"

text \<open>
  \<open>if (full) return full\<close> lets an empty body through to the second pattern,
  \<open>/<execution>([\s\S]*)$/i\<close>: everything after the leftmost opening tag.
\<close>

definition extractExecutionText :: "string \<Rightarrow> string option" where
  "extractExecutionText txt =
     (let openTag = (case findCI ''<execution>'' txt of
                       None \<Rightarrow> None
                     | Some (before, rest) \<Rightarrow> Some (trim rest))
      in case extractTaggedText txt ''execution'' of
           Some full \<Rightarrow> if full \<noteq> [] then Some full else openTag
         | None \<Rightarrow> openTag)"

section \<open>Session memory\<close>

record Bounds =
  minX :: int
  maxX :: int
  minY :: int
  maxY :: int

record Visit =
  visit_x :: int
  visit_y :: int
  visit_turn :: int

text \<open>
  The fuel-return hint, a field of the payload sent to the model.
\<close>

record FuelHint =
  stationX :: int
  returnDx :: jsnum
  returnDy :: jsnum
  estReturnFuel :: jsnum
  buffer :: jsnum
  fuelCur :: rat
  fuelMax :: rat
  shouldReturn :: bool
  turnsLeftMax :: jsnum
  turnsLeftAir :: jsnum
  turnsLeftDig :: jsnum
  turnsLeftProbable :: jsnum
  turnsLeftUp :: jsnum
  turnsLeftWorst :: jsnum

text \<open>
  The payload is kept as a value, not as its JSON text. Its fields \<open>knownWindow\<close>,
  \<open>scanTiles\<close>, \<open>knownTiles\<close>, \<open>shopHint\<close>, \<open>behaviorNote\<close>, \<open>blockedDirs\<close> and
  \<open>fuelNavigator\<close> are renderings for the prompt and are left out.
\<close>

record Payload =
  payload_planLength :: int
  payload_turnsElapsed :: int
  payload_state :: State
  payload_visitedTail :: "Visit list"
  payload_bounds :: Bounds
  payload_fuelHint :: FuelHint
  payload_fuelRuns :: int
  payload_upgradeReminder :: bool

text \<open>
  What a turn of the conversation history holds: the full payload text
  (\<open>JSON.stringify(userPayload)\<close>), its summary (\<open>summarizeUserPayloadForHistory\<close>), or a
  plain text. The time stamp of a turn is left out.
\<close>

datatype role = User | Assistant

datatype content = PayloadRaw Payload | PayloadSummary Payload | Text string

text \<open>
  \<open>known\<close> is a \<open>Map\<close> from the key \<open>`${gx},${gy}`\<close> to a tile. The key text determines the
  pair of integers, so the pair itself is the key here. The map is an association list in
  insertion order; \<open>Map.set\<close> is \<open>AList.update\<close>, which overwrites in place or appends, and
  \<open>Map.size\<close> is the length of the list.
\<close>

record SessionMemory =
  session_id :: string
  known :: "((int \<times> int) \<times> char) list"
  visited :: "Visit list"
  bounds :: Bounds
  history :: "(role \<times> content) list option"
  fuelRuns :: "int option"
  lastAtStation :: "bool option"

text \<open>The object that \<open>getSession\<close> creates for a new id.\<close>

definition newSession :: "string \<Rightarrow> SessionMemory" where
  "newSession ident =
     \<lparr> session_id = ident,
       known = [],
       visited = [],
       bounds = \<lparr> minX = 0, maxX = 0, minY = 0, maxY = 0 \<rparr>,
       history = Some [],
       fuelRuns = Some 0,
       lastAtStation = Some False \<rparr>"

subsection \<open>updateMemory\<close>

text \<open>The body of the inner loop: one cell of the scan at absolute position \<open>(gx, gy)\<close>.\<close>

definition setCell :: "int \<Rightarrow> int \<Rightarrow> char \<Rightarrow> SessionMemory \<Rightarrow> SessionMemory" where
  "setCell gx gy t session =
     (let known' = AList.update (gx, gy) t (known session);
          b = bounds session
      in session
           \<lparr> known := known',
             bounds :=
               (if length known' = 1
                then \<lparr> minX = gx, maxX = gx, minY = gy, maxY = gy \<rparr>
                else \<lparr> minX = min (minX b) gx, maxX = max (maxX b) gx,
                       minY = min (minY b) gy, maxY = max (maxY b) gy \<rparr>) \<rparr>)"

text \<open>\<open>for (rx = 0; rx < row.length; rx++)\<close>, from column \<open>rx\<close> on.\<close>

fun rowLoop :: "int \<Rightarrow> int \<Rightarrow> nat \<Rightarrow> string \<Rightarrow> SessionMemory \<Rightarrow> SessionMemory" where
  "rowLoop baseX gy rx [] session = session"
| "rowLoop baseX gy rx (t # row) session =
     rowLoop baseX gy (Suc rx) row (setCell (baseX + int rx) gy t session)"

text \<open>\<open>for (ry = 0; ry < state.localScan.length; ry++)\<close>, from row \<open>ry\<close> on.\<close>

fun scanLoop ::
  "int \<Rightarrow> int \<Rightarrow> nat \<Rightarrow> scan_row list \<Rightarrow> SessionMemory \<Rightarrow> SessionMemory" where
  "scanLoop baseX baseY ry [] session = session"
| "scanLoop baseX baseY ry (r # rows) session =
     scanLoop baseX baseY (Suc ry) rows
       (case r of
          NotAString \<Rightarrow> session
        | Row row \<Rightarrow> rowLoop baseX (baseY + int ry) 0 row session)"

definition updateMemory :: "SessionMemory \<Rightarrow> State \<Rightarrow> SessionMemory" where
  "updateMemory session state =
     (case localScan state of
        NotAnArray \<Rightarrow> session
      | ScanRows rows \<Rightarrow>
          (let baseX = pos_x (pos state) - 2;
               baseY = pos_y (pos state) - 2;
               scanned = scanLoop baseX baseY 0 rows session;
               pushed = visited scanned
                          @ [\<lparr> visit_x = pos_x (pos state), visit_y = pos_y (pos state),
                               visit_turn = turn state \<rparr>]
           in scanned \<lparr> visited := (if length pushed > 50 then tl pushed else pushed) \<rparr>))"

subsection \<open>updateFuelRunCount\<close>

text \<open>\<open>session.fuelRuns ?? 0\<close>\<close>

definition runsOf :: "SessionMemory \<Rightarrow> int" where
  "runsOf session = (case fuelRuns session of Some n \<Rightarrow> n | None \<Rightarrow> 0)"

definition updateFuelRunCount :: "SessionMemory \<Rightarrow> State \<Rightarrow> SessionMemory" where
  "updateFuelRunCount session state =
     (if \<not> truthy (atFuelStation state) then session \<lparr> lastAtStation := Some False \<rparr>
      else if \<not> truthy (lastAtStation session)
      then session
             \<lparr> fuelRuns := Some ((case fuelRuns session of Some n \<Rightarrow> n | None \<Rightarrow> 0) + 1),
               lastAtStation := Some True \<rparr>
      else session)"

subsection \<open>appendHistory\<close>

definition appendHistory :: "SessionMemory \<Rightarrow> role \<Rightarrow> content \<Rightarrow> SessionMemory" where
  "appendHistory session r c =
     (let pushed = (case history session of Some h \<Rightarrow> h | None \<Rightarrow> []) @ [(r, c)]
      in session \<lparr> history := Some (if length pushed > 200 then tl pushed else pushed) \<rparr>)"

section \<open>Fuel-return hint\<close>

text \<open>The constants that \<open>buildFuelHint\<close> reads from the state, each with its default.\<close>

definition stationXOf :: "State \<Rightarrow> int" where
  "stationXOf state =
     (case stations state of
        Some s \<Rightarrow> (case stations_fuel s of Some f \<Rightarrow> station_x f | None \<Rightarrow> 6)
      | None \<Rightarrow> 6)"

definition baseTurnFuelOf :: "State \<Rightarrow> rat" where
  "baseTurnFuelOf state =
     (case rules state of
        Some r \<Rightarrow> (case baseTurnFuel r of Some b \<Rightarrow> b | None \<Rightarrow> 1)
      | None \<Rightarrow> 1)"

definition digFuelOf :: "State \<Rightarrow> rat" where
  "digFuelOf state =
     (case rules state of
        Some r \<Rightarrow>
          (case digFuelBase r of
             Some d \<Rightarrow> (case dig_dirt d of Some v \<Rightarrow> v | None \<Rightarrow> 2)
           | None \<Rightarrow> 2)
      | None \<Rightarrow> 2)"

definition lavaDigFuelOf :: "State \<Rightarrow> rat" where
  "lavaDigFuelOf state =
     (case rules state of
        Some r \<Rightarrow>
          (case digFuelBase r of
             Some d \<Rightarrow> (case dig_lava d of Some v \<Rightarrow> v | None \<Rightarrow> 3)
           | None \<Rightarrow> 3)
      | None \<Rightarrow> 3)"

text \<open>
  \<open>pos\<close> and \<open>fuel\<close> are objects in every state that passes request validation, so the
  guard \<open>if (!state.pos || !state.fuel) return null\<close> never fires and the hint is always
  built. Every arithmetic operation of the source is one operation on doubles here, in
  the order and with the grouping of the source.
\<close>

definition buildFuelHint :: "State \<Rightarrow> FuelHint" where
  "buildFuelHint state =
     (let stationX = stationXOf state;
          returnDy = jsMax (Fin 0) (jsSub (Fin (of_int (pos_y (pos state)))) (Fin 1));
          returnDx = jsAbs (jsSub (Fin (of_int (pos_x (pos state)))) (Fin (of_int stationX)));
          baseTurnFuel = Fin (baseTurnFuelOf state);
          upThrustFuel = Fin 2;
          airMoveFuel = Fin (1 / 2);
          digFuel = Fin (digFuelOf state);
          lavaDigFuel = Fin (lavaDigFuelOf state);
          verticalCost = jsAdd baseTurnFuel upThrustFuel;
          horizontalCost =
            jsAdd baseTurnFuel
              (if pos_y (pos state) > 1 then jsAdd digFuel (Fin 1) else airMoveFuel);
          estReturnFuel =
            jsAdd (jsMul returnDy verticalCost) (jsMul returnDx horizontalCost);
          buffer = Fin 8;
          safeBase = jsMax (Fin 1) baseTurnFuel;
          safeAir = jsMax (Fin 1) (jsAdd baseTurnFuel airMoveFuel);
          safeDig = jsMax (Fin 1) (jsAdd (jsAdd baseTurnFuel digFuel) (Fin 1));
          safeUpThrust = jsMax (Fin 1) (jsAdd baseTurnFuel upThrustFuel);
          safeWorst = jsMax (Fin 1) (jsAdd (jsAdd baseTurnFuel lavaDigFuel) (Fin 1));
          turnsLeftDig = jsFloor (jsDiv (Fin (fuel_cur (fuel state))) safeDig)
      in \<lparr> stationX = stationX,
           returnDx = returnDx,
           returnDy = returnDy,
           estReturnFuel = estReturnFuel,
           buffer = buffer,
           fuelCur = fuel_cur (fuel state),
           fuelMax = fuel_max (fuel state),
           shouldReturn = jsLe (Fin (fuel_cur (fuel state))) (jsAdd estReturnFuel buffer),
           turnsLeftMax = jsFloor (jsDiv (Fin (fuel_cur (fuel state))) safeBase),
           turnsLeftAir = jsFloor (jsDiv (Fin (fuel_cur (fuel state))) safeAir),
           turnsLeftDig = turnsLeftDig,
           turnsLeftProbable = turnsLeftDig,
           turnsLeftUp = jsFloor (jsDiv (Fin (fuel_cur (fuel state))) safeUpThrust),
           turnsLeftWorst = jsFloor (jsDiv (Fin (fuel_cur (fuel state))) safeWorst) \<rparr>)"

section \<open>Protocol engine\<close>

text \<open>
  The configuration read from the environment at start-up, and the variables of the
  module. \<open>upstreamCalls\<close> is not a variable of the program: it counts the
  chat-completion requests sent to the upstream API, which makes the requests visible
  in the model. Logging, the waiting time between two requests and the time stamps are
  left out.
\<close>

record Config =
  OPENROUTER_API_KEY :: string
  OPENROUTER_MODEL :: string
  MAX_PLANS_PER_SESSION :: int

record Module =
  planCount :: int
  sessions :: "string \<rightharpoonup> SessionMemory"
  upstreamCalls :: nat

text \<open>
  What one chat-completion request comes to. Either the call throws (the name and the
  message of the error, and whether the timeout had aborted the request), or it returns
  a message, of which the engine reads \<open>content\<close> and \<open>reasoning\<close> when they are strings.
\<close>

datatype upstream =
    Threw string string bool
  | Replied "string option" "string option"

record PlanResponse =
  resp_actions :: "action list"
  resp_note :: string
  resp_model :: string
  resp_reasoning :: "string option"
  resp_status :: "string option"

text \<open>
  \<open>getSession\<close>: \<open>sessionId || "default"\<close>, then the session stored under the id, created
  and stored on first use.
\<close>

definition getSession :: "Module \<Rightarrow> string option \<Rightarrow> SessionMemory \<times> Module" where
  "getSession w sessionId =
     (let ident = (case sessionId of
                     Some s \<Rightarrow> if s = [] then ''default'' else s
                   | None \<Rightarrow> ''default'')
      in case sessions w ident of
           Some s \<Rightarrow> (s, w)
         | None \<Rightarrow> (newSession ident, w \<lparr> sessions := (sessions w)(ident \<mapsto> newSession ident) \<rparr>))"

text \<open>
  The program mutates the session object that the map holds. Here every exit of
  \<open>callOpenRouterPlan\<close> writes the session back.
\<close>

definition storeSession :: "Module \<Rightarrow> SessionMemory \<Rightarrow> Module" where
  "storeSession w session = w \<lparr> sessions := (sessions w)(session_id session \<mapsto> session) \<rparr>"

definition buildPayload :: "SessionMemory \<Rightarrow> State \<Rightarrow> int \<Rightarrow> Payload" where
  "buildPayload session state planLength =
     (let runs = (case fuelRuns session of Some n \<Rightarrow> n | None \<Rightarrow> 0);
          needsUpgradeReminder = (runs \<ge> 2 \<and> fuel_max (fuel state) < 180)
      in \<lparr> payload_planLength = planLength,
           payload_turnsElapsed = turn state,
           payload_state = state,
           payload_visitedTail = drop (length (visited session) - 8) (visited session),
           payload_bounds = bounds session,
           payload_fuelHint = buildFuelHint state,
           payload_fuelRuns = runs,
           payload_upgradeReminder = needsUpgradeReminder \<rparr>)"

text \<open>\<open>a || b || ""\<close> on the content and the reasoning text of a reply.\<close>

definition combineText :: "string \<Rightarrow> string option \<Rightarrow> string" where
  "combineText responseContent reasoningText =
     (if responseContent \<noteq> [] then responseContent
      else (case reasoningText of Some r \<Rightarrow> r | None \<Rightarrow> []))"

text \<open>\<open>s || null\<close>\<close>

definition orNull :: "string \<Rightarrow> string option" where
  "orNull s = (if s = [] then None else Some s)"

text \<open>
  \<open>requestCorrection\<close>. Of its parameters only the outcome of the corrective request and
  the plan length decide the result; the session is written to the log only.
\<close>

definition requestCorrection :: "Config \<Rightarrow> upstream \<Rightarrow> int \<Rightarrow> PlanResponse option" where
  "requestCorrection cfg correction planLength =
     (case correction of
        Threw errName errMessage abortedByTimeout \<Rightarrow> None
      | Replied content reasoningText \<Rightarrow>
          (let contentText = (case content of Some c \<Rightarrow> c | None \<Rightarrow> []);
               combinedText = combineText contentText reasoningText
           in case extractExecutionText combinedText of
                None \<Rightarrow> None
              | Some executionText \<Rightarrow>
                  if executionText = [] then None
                  else if \<not> v_success (validateExecution executionText planLength) then None
                  else (let parsed = parseActionTokens executionText
                        in if length parsed < 1 \<or> int (length parsed) > planLength then None
                           else Some \<lparr> resp_actions = sanitizeActions parsed planLength,
                                       resp_note = ''openrouter-corrected'',
                                       resp_model = OPENROUTER_MODEL cfg,
                                       resp_reasoning = orNull contentText,
                                       resp_status = None \<rparr>)))"

text \<open>The response of the three \<open>bad_format\<close> exits.\<close>

definition badFormat :: "Config \<Rightarrow> State \<Rightarrow> int \<Rightarrow> string \<Rightarrow> string \<Rightarrow> PlanResponse" where
  "badFormat cfg state planLength noteText combinedText =
     \<lparr> resp_actions = planActions state planLength,
       resp_note = noteText,
       resp_model = OPENROUTER_MODEL cfg,
       resp_reasoning = orNull combinedText,
       resp_status = Some ''bad_format'' \<rparr>"

text \<open>
  The corrective round of \<open>callOpenRouterPlan\<close>: one more request; its plan if it gives
  one, else the fallback plan under the given note.
\<close>

definition correctOrFallback ::
  "Config \<Rightarrow> upstream \<Rightarrow> Module \<Rightarrow> State \<Rightarrow> int \<Rightarrow> string \<Rightarrow> string
    \<Rightarrow> PlanResponse \<times> Module" where
  "correctOrFallback cfg correction w state planLength noteText combinedText =
     (let w' = w \<lparr> upstreamCalls := upstreamCalls w + 1 \<rparr>
      in case requestCorrection cfg correction planLength of
           Some correctionResponse \<Rightarrow> (correctionResponse, w')
         | None \<Rightarrow> (badFormat cfg state planLength noteText combinedText, w'))"

text \<open>\<open>callOpenRouterPlan\<close> after the first request has returned a message.\<close>

definition afterReply ::
  "Config \<Rightarrow> upstream \<Rightarrow> Module \<Rightarrow> SessionMemory \<Rightarrow> State \<Rightarrow> int \<Rightarrow> Payload
    \<Rightarrow> string \<Rightarrow> string option \<Rightarrow> PlanResponse \<times> Module" where
  "afterReply cfg correction w session state planLength payload responseContent reasoningText =
     (let combinedText = combineText responseContent reasoningText;
          session' =
            appendHistory (appendHistory session User (PayloadSummary payload)) Assistant
              (Text (if combinedText = [] then ''<empty>'' else combinedText));
          w' = storeSession w session'
      in case extractExecutionText combinedText of
           None \<Rightarrow>
             correctOrFallback cfg correction w' state planLength ''no-execution-tag'' combinedText
         | Some executionText \<Rightarrow>
             if executionText = [] then
               correctOrFallback cfg correction w' state planLength ''no-execution-tag''
                 combinedText
             else if \<not> v_success (validateExecution executionText planLength) then
               correctOrFallback cfg correction w' state planLength ''bad-execution-format''
                 combinedText
             else (let parsed = parseActionTokens executionText
                   in if length parsed < 1 \<or> int (length parsed) > planLength then
                        (badFormat cfg state planLength ''bad-execution-parse'' combinedText, w')
                      else
                        (\<lparr> resp_actions = sanitizeActions parsed planLength,
                           resp_note = ''openrouter'',
                           resp_model = OPENROUTER_MODEL cfg,
                           resp_reasoning = orNull responseContent,
                           resp_status = None \<rparr>,
                         w' \<lparr> planCount := planCount w' + 1 \<rparr>)))"

text \<open>
  \<open>callOpenRouterPlan\<close>. \<open>primary\<close> is the outcome of the first request and \<open>correction\<close>
  the outcome of the corrective request; each is consulted only where the program sends
  the request.
\<close>

definition callOpenRouterPlan ::
  "Config \<Rightarrow> upstream \<Rightarrow> upstream \<Rightarrow> Module \<Rightarrow> State \<Rightarrow> int \<Rightarrow> string option
    \<Rightarrow> PlanResponse \<times> Module" where
  "callOpenRouterPlan cfg primary correction w state planLength sessionId =
     (if OPENROUTER_API_KEY cfg = [] then
        (\<lparr> resp_actions = planActions state planLength,
           resp_note = ''fallback-no-key'',
           resp_model = OPENROUTER_MODEL cfg,
           resp_reasoning = None,
           resp_status = None \<rparr>, w)
      else if MAX_PLANS_PER_SESSION cfg > 0 \<and> planCount w \<ge> MAX_PLANS_PER_SESSION cfg then
        (\<lparr> resp_actions = planActions state planLength,
           resp_note = ''fallback-max-plans'',
           resp_model = OPENROUTER_MODEL cfg,
           resp_reasoning = None,
           resp_status = None \<rparr>, w)
      else
        (case getSession w sessionId of
           (session0, w0) \<Rightarrow>
             (let session = updateFuelRunCount (updateMemory session0 state) state;
                  payload = buildPayload session state planLength;
                  w1 = (storeSession w0 session) \<lparr> upstreamCalls := upstreamCalls w0 + 1 \<rparr>
              in case primary of
                   Threw errName errMessage abortedByTimeout \<Rightarrow>
                     (\<lparr> resp_actions = [],
                        resp_note = ''api-error'',
                        resp_model = OPENROUTER_MODEL cfg,
                        resp_reasoning = Some errMessage,
                        resp_status = Some ''api_error'' \<rparr>,
                      storeSession w1
                        (appendHistory (appendHistory session User (PayloadRaw payload))
                           Assistant (Text (''<error:'' @ errMessage @ ''>''))))
                 | Replied content reasoningText \<Rightarrow>
                     afterReply cfg correction w1 session state planLength payload
                       (case content of Some c \<Rightarrow> c | None \<Rightarrow> []) reasoningText)))"

section \<open>Notions for the properties of the session memory\<close>

text \<open>
  The cells that the two loops of \<open>updateMemory\<close> visit, in order, each with its absolute
  position; \<open>setCells\<close> runs the body of the inner loop over a list of cells.
\<close>

fun rowCells :: "int \<Rightarrow> int \<Rightarrow> nat \<Rightarrow> string \<Rightarrow> ((int \<times> int) \<times> char) list" where
  "rowCells baseX gy rx [] = []"
| "rowCells baseX gy rx (t # row) = ((baseX + int rx, gy), t) # rowCells baseX gy (Suc rx) row"

fun scanCells ::
  "int \<Rightarrow> int \<Rightarrow> nat \<Rightarrow> scan_row list \<Rightarrow> ((int \<times> int) \<times> char) list" where
  "scanCells baseX baseY ry [] = []"
| "scanCells baseX baseY ry (r # rows) =
     (case r of NotAString \<Rightarrow> [] | Row row \<Rightarrow> rowCells baseX (baseY + int ry) 0 row)
     @ scanCells baseX baseY (Suc ry) rows"

definition setCells :: "SessionMemory \<Rightarrow> ((int \<times> int) \<times> char) list \<Rightarrow> SessionMemory" where
  "setCells session cells =
     foldl (\<lambda>s c. setCell (fst (fst c)) (snd (fst c)) (snd c) s) session cells"

text \<open>A position lies in a bounding box; the bounding box of a session holds its map.\<close>

definition inBox :: "Bounds \<Rightarrow> int \<times> int \<Rightarrow> bool" where
  "inBox b k \<longleftrightarrow> minX b \<le> fst k \<and> fst k \<le> maxX b \<and> minY b \<le> snd k \<and> snd k \<le> maxY b"

definition boxInvariant :: "SessionMemory \<Rightarrow> bool" where
  "boxInvariant session \<longleftrightarrow>
     minX (bounds session) \<le> maxX (bounds session)
     \<and> minY (bounds session) \<le> maxY (bounds session)
     \<and> (\<forall>k \<in> fst ` set (known session). inBox (bounds session) k)"

text \<open>
  When the map has a single key, the bounding box is the point of that key. This holds
  after every execution of the loop body.
\<close>

definition pointOK :: "SessionMemory \<Rightarrow> bool" where
  "pointOK s \<longleftrightarrow>
     (length (known s) = 1 \<longrightarrow>
        (\<forall>k \<in> fst ` set (known s).
           bounds s = \<lparr> minX = fst k, maxX = fst k, minY = snd k, maxY = snd k \<rparr>))"

section \<open>The token grammar as the specification words it\<close>

text \<open>
  The vocabulary of the specification: \<open>SURFACE_OPS\<close>, \<open>MOVE:{U|D|L|R}\<close> and
  \<open>UPGRADE:{FUEL|CARGO|HULL|DRILL}\<close>. \<open>tokenText\<close> is the upper-case spelling of a token and
  \<open>plannedAction\<close> the action that the token stands for. These definitions follow the
  specification; they are compared with \<open>validateExecution\<close> and \<open>parseActionTokens\<close>
  below.
\<close>

datatype direction = DirU | DirD | DirL | DirR

datatype upgradeKind = KindFUEL | KindCARGO | KindHULL | KindDRILL

datatype token = TokSurfaceOps | TokMove direction | TokUpgrade upgradeKind

fun dirText :: "direction \<Rightarrow> string" where
  "dirText DirU = ''U''"
| "dirText DirD = ''D''"
| "dirText DirL = ''L''"
| "dirText DirR = ''R''"

fun kindText :: "upgradeKind \<Rightarrow> string" where
  "kindText KindFUEL = ''FUEL''"
| "kindText KindCARGO = ''CARGO''"
| "kindText KindHULL = ''HULL''"
| "kindText KindDRILL = ''DRILL''"

fun tokenText :: "token \<Rightarrow> string" where
  "tokenText TokSurfaceOps = ''SURFACE_OPS''"
| "tokenText (TokMove d) = ''MOVE:'' @ dirText d"
| "tokenText (TokUpgrade k) = ''UPGRADE:'' @ kindText k"

fun plannedAction :: "token \<Rightarrow> action" where
  "plannedAction TokSurfaceOps = SURFACE_OPS ''Planned action.''"
| "plannedAction (TokMove d) = MOVE (Some (dirText d)) ''Planned action.''"
| "plannedAction (TokUpgrade k) = UPGRADE (Some (kindText k)) ''Planned action.''"

text \<open>
  A sequence of tokens separated by white space: white space, then the pieces, each a
  token followed by white space, which is not empty between two tokens. A token here is
  any non-empty text without white space.
\<close>

definition spaces :: "string \<Rightarrow> bool" where
  "spaces s = list_all isSpace s"

definition word :: "string \<Rightarrow> bool" where
  "word s \<longleftrightarrow> s \<noteq> [] \<and> list_all (\<lambda>c. \<not> isSpace c) s"

fun separated :: "(string \<times> string) list \<Rightarrow> bool" where
  "separated [] = True"
| "separated [(t, sep)] = (word t \<and> spaces sep)"
| "separated ((t, sep) # p # ps) = (word t \<and> spaces sep \<and> sep \<noteq> [] \<and> separated (p # ps))"

definition layout :: "string \<Rightarrow> (string \<times> string) list \<Rightarrow> string" where
  "layout lead pieces = lead @ concat (map (\<lambda>(t, sep). t @ sep) pieces)"

text \<open>The layout without the white space at its two ends.\<close>

fun core :: "(string \<times> string) list \<Rightarrow> string" where
  "core [] = []"
| "core [(t, sep)] = t"
| "core ((t, sep) # p # ps) = t @ sep @ core (p # ps)"

section \<open>Reference values\<close>

text \<open>
  The state of the few-shot example that the engine sends with every request
  (\<open>exampleUserMessage\<close>); the fields that the model of the state leaves out are dropped.
\<close>

definition exampleState :: State where
  "exampleState =
     \<lparr> turn = 5,
       pos = \<lparr> pos_x = 6, pos_y = 3, pos_depth = 3 \<rparr>,
       fuel = \<lparr> fuel_cur = 18, fuel_max = 30 \<rparr>,
       hullState = \<lparr> hull_cur = 28, hull_max = 30 \<rparr>,
       cargo = \<lparr> cargo_cur = 4, cargo_cap = 12 \<rparr>,
       money = 80,
       localScan =
         ScanRows [Row ''......'', Row ''..dd..'', Row ''..do..'', Row ''..d...'',
                   Row ''......'', Row ''......''],
       atSurface = Some False,
       atFuelStation = Some False,
       atUpgradeShop = Some False,
       stations = None,
       rules = Some \<lparr> baseTurnFuel = Some 1, digFuelBase = None \<rparr> \<rparr>"

text \<open>
  Two states for the fuel-return hint, with fractional numbers that are not sums of powers
  of two. Below the surface: position \<open>(7, 3)\<close>, fuel \<open>15.9\<close>, base turn fuel \<open>0.3\<close>. On
  the surface row: position \<open>(2, 1)\<close>, fuel \<open>10.4\<close>, base turn fuel \<open>0.1\<close>. Each decimal
  is given by the exact value of its double.
\<close>

definition belowState :: State where
  "belowState =
     exampleState
        \<lparr> pos := \<lparr> pos_x = 7, pos_y = 3, pos_depth = 3 \<rparr>,
          fuel := \<lparr> fuel_cur = 8950904259398861 / 562949953421312, fuel_max = 30 \<rparr>,
          rules := Some \<lparr> baseTurnFuel = Some (5404319552844595 / 18014398509481984),
                          digFuelBase = None \<rparr> \<rparr>"

definition surfaceState :: State where
  "surfaceState =
     exampleState
        \<lparr> pos := \<lparr> pos_x = 2, pos_y = 1, pos_depth = 0 \<rparr>,
          fuel := \<lparr> fuel_cur = 5854679515581645 / 562949953421312, fuel_max = 30 \<rparr>,
          rules := Some \<lparr> baseTurnFuel = Some (3602879701896397 / 36028797018963968),
                          digFuelBase = None \<rparr> \<rparr>"

text \<open>
  The number of times a sequence of flags changes from false to true, the flag before the
  sequence being \<open>prev\<close>. This is the count that the specification gives for the fuel-run
  counter; it is compared with \<open>updateFuelRunCount\<close> below.
\<close>

fun risingEdges :: "bool \<Rightarrow> bool list \<Rightarrow> nat" where
  "risingEdges prev [] = 0"
| "risingEdges prev (f # fs) = (if f \<and> \<not> prev then 1 else 0) + risingEdges f fs"

text \<open>
  The configuration when the environment sets none of the variables, and the variables of
  the module when it is loaded.
\<close>

definition defaultConfig :: Config where
  "defaultConfig =
     \<lparr> OPENROUTER_API_KEY = [],
       OPENROUTER_MODEL = ''moonshotai/kimi-k2.5'',
       MAX_PLANS_PER_SESSION = 0 \<rparr>"

definition initialModule :: Module where
  "initialModule = \<lparr> planCount = 0, sessions = Map.empty, upstreamCalls = 0 \<rparr>"

section \<open>Properties of the fallback planner\<close>

lemma planLoop_replicate:
  "planLoop state n i actions = actions @ replicate (nat (n - i)) (planSlot state)"
proof (induction state n i actions rule: planLoop.induct)
  case (1 state n i actions)
  show ?case
  proof (cases "i < n")
    case True
    then have "nat (n - i) = Suc (nat (n - (i + 1)))" by simp
    with True "1.IH" show ?thesis
      by (subst planLoop.simps) (simp add: replicate_append_same)
  next
    case False
    then show ?thesis by (subst planLoop.simps) simp
  qed
qed

lemma planActions_replicate:
  "planActions state planLength = replicate (nat (clampPlanLength planLength)) (planSlot state)"
  by (simp add: planActions_def planLoop_replicate)

lemma length_planActions:
  "int (length (planActions state planLength)) = clampPlanLength planLength"
  by (simp add: planActions_replicate clampPlanLength_def)

lemma planActions_nonempty: "planActions state planLength \<noteq> []"
  using length_planActions [of state planLength] by (auto simp: clampPlanLength_def)

lemma planSlot_syntheticState:
  "planSlot syntheticState = MOVE (Some ''D'') ''Server plan: move down.''"
  by (simp add: planSlot_def syntheticState_def truthy_def)

text \<open>
  Claim C1. The fallback planner returns exactly \<open>clamp(planLength, 1, 10)\<close> actions, which
  is \<open>planLength\<close> itself when \<open>planLength\<close> is between 1 and 10. Every slot holds the
  action chosen by the rules in order: \<open>SURFACE_OPS\<close> at the fuel station when cargo is
  non-empty or fuel is not full; otherwise \<open>UPGRADE(FUEL)\<close> at the upgrade shop with money
  at least 150; otherwise \<open>MOVE(D)\<close>.
\<close>

theorem fallback_planner_length_and_rules:
  "int (length (planActions state planLength)) = max 1 (min 10 planLength)
   \<and> (1 \<le> planLength \<and> planLength \<le> 10 \<longrightarrow>
        int (length (planActions state planLength)) = planLength)
   \<and> (\<forall>a \<in> set (planActions state planLength).
        a = (if truthy (atFuelStation state)
                \<and> (cargo_cur (cargo state) > 0
                    \<or> fuel_cur (fuel state) < fuel_max (fuel state))
             then SURFACE_OPS ''Refuel and cash in at station.''
             else if truthy (atUpgradeShop state) \<and> money state \<ge> 150
             then UPGRADE (Some ''FUEL'') ''Buying fuel upgrade.''
             else MOVE (Some ''D'') ''Server plan: move down.''))"
proof (intro conjI)
  show len: "int (length (planActions state planLength)) = max 1 (min 10 planLength)"
    unfolding length_planActions clampPlanLength_def by simp
  show "1 \<le> planLength \<and> planLength \<le> 10 \<longrightarrow>
        int (length (planActions state planLength)) = planLength"
    unfolding len by linarith
  have "\<forall>a \<in> set (planActions state planLength). a = planSlot state"
    unfolding planActions_replicate by simp
  then show "\<forall>a \<in> set (planActions state planLength).
        a = (if truthy (atFuelStation state)
                \<and> (cargo_cur (cargo state) > 0
                    \<or> fuel_cur (fuel state) < fuel_max (fuel state))
             then SURFACE_OPS ''Refuel and cash in at station.''
             else if truthy (atUpgradeShop state) \<and> money state \<ge> 150
             then UPGRADE (Some ''FUEL'') ''Buying fuel upgrade.''
             else MOVE (Some ''D'') ''Server plan: move down.'')"
    unfolding planSlot_def .
qed

theorem fallback_planner_length_and_rules_witness:
  "(1::int) \<le> 3 \<and> (3::int) \<le> 10
   \<and> planActions syntheticState 3
       = [MOVE (Some ''D'') ''Server plan: move down.'',
          MOVE (Some ''D'') ''Server plan: move down.'',
          MOVE (Some ''D'') ''Server plan: move down.'']"
proof -
  note inst = fallback_planner_length_and_rules [of syntheticState 3]
  have slot: "(if truthy (atFuelStation syntheticState)
                  \<and> (cargo_cur (cargo syntheticState) > 0
                      \<or> fuel_cur (fuel syntheticState) < fuel_max (fuel syntheticState))
               then SURFACE_OPS ''Refuel and cash in at station.''
               else if truthy (atUpgradeShop syntheticState) \<and> money syntheticState \<ge> 150
               then UPGRADE (Some ''FUEL'') ''Buying fuel upgrade.''
               else MOVE (Some ''D'') ''Server plan: move down.'')
              = MOVE (Some ''D'') ''Server plan: move down.''"
    by (simp add: syntheticState_def truthy_def)
  have len: "length (planActions syntheticState 3) = 3"
    using conjunct1 [OF inst] by simp
  have all: "\<forall>a \<in> set (planActions syntheticState 3).
               a = MOVE (Some ''D'') ''Server plan: move down.''"
    using conjunct2 [OF conjunct2 [OF inst]] unfolding slot .
  have "planActions syntheticState 3
        = replicate 3 (MOVE (Some ''D'') ''Server plan: move down.'')"
    using len all by (intro replicate_eqI) blast+
  then show ?thesis
    by (simp add: numeral_3_eq_3)
qed

section \<open>Properties of the fuel-return hint\<close>

text \<open>
  The decimal literals \<open>0.1\<close>, \<open>0.3\<close>, \<open>10.4\<close> and \<open>15.9\<close> as doubles, and two sums that
  round.
\<close>

lemma roundDouble_literals:
  "roundDouble (1 / 10) = Fin (3602879701896397 / 36028797018963968)"
  "roundDouble (3 / 10) = Fin (5404319552844595 / 18014398509481984)"
  "roundDouble (52 / 5) = Fin (5854679515581645 / 562949953421312)"
  "roundDouble (159 / 10) = Fin (8950904259398861 / 562949953421312)"
  by code_simp+

lemma jsAdd_rounds:
  "jsAdd (Fin (3602879701896397 / 36028797018963968)) (Fin (1 / 2))
     = Fin (5404319552844595 / 9007199254740992)"
  "jsAdd (Fin (5404319552844595 / 18014398509481984)) (Fin 2)
     = Fin (2589569785738035 / 1125899906842624)"
  by code_simp+

text \<open>
  Claim C4. The hint estimates the fuel for the way back as \<open>returnDy\<close> rows at
  \<open>baseTurnFuel + upThrustFuel\<close> each, plus \<open>returnDx\<close> columns at \<open>baseTurnFuel\<close> plus the
  dig cost each when the player is below the surface row (\<open>pos.y > 1\<close>), or at
  \<open>baseTurnFuel\<close> plus the air-move cost each at or above it; \<open>shouldReturn\<close> holds exactly
  when the current fuel is at most the estimate plus 8. In the program the thrust cost is
  2, the air-move cost is one half, and the dig cost of a column is the dirt dig fuel of
  the rules (2 when they give none) plus 1. The sums, the products and the comparison are
  those of the program, on doubles.
\<close>

theorem fuel_hint_estimate:
  "returnDy (buildFuelHint state)
     = jsMax (Fin 0) (jsSub (Fin (of_int (pos_y (pos state)))) (Fin 1))
   \<and> returnDx (buildFuelHint state)
     = jsAbs (jsSub (Fin (of_int (pos_x (pos state)))) (Fin (of_int (stationXOf state))))
   \<and> (pos_y (pos state) > 1 \<longrightarrow>
        estReturnFuel (buildFuelHint state)
          = jsAdd (jsMul (returnDy (buildFuelHint state))
                     (jsAdd (Fin (baseTurnFuelOf state)) (Fin 2)))
                  (jsMul (returnDx (buildFuelHint state))
                     (jsAdd (Fin (baseTurnFuelOf state))
                        (jsAdd (Fin (digFuelOf state)) (Fin 1)))))
   \<and> (pos_y (pos state) \<le> 1 \<longrightarrow>
        estReturnFuel (buildFuelHint state)
          = jsAdd (jsMul (returnDy (buildFuelHint state))
                     (jsAdd (Fin (baseTurnFuelOf state)) (Fin 2)))
                  (jsMul (returnDx (buildFuelHint state))
                     (jsAdd (Fin (baseTurnFuelOf state)) (Fin (1 / 2)))))
   \<and> (shouldReturn (buildFuelHint state)
        \<longleftrightarrow> jsLe (Fin (fuel_cur (fuel state)))
              (jsAdd (estReturnFuel (buildFuelHint state)) (Fin 8)))"
  by (simp add: buildFuelHint_def Let_def)

theorem fuel_hint_estimate_witness:
  "pos_y (pos belowState) > 1
   \<and> estReturnFuel (buildFuelHint belowState) = Fin (8894609264056729 / 1125899906842624)
   \<and> \<not> shouldReturn (buildFuelHint belowState)
   \<and> pos_y (pos surfaceState) \<le> 1
   \<and> estReturnFuel (buildFuelHint surfaceState) = Fin (5404319552844595 / 2251799813685248)
   \<and> shouldReturn (buildFuelHint surfaceState)"
proof -
  let ?below = "belowState"
  let ?above = "surfaceState"
  note below = fuel_hint_estimate [of ?below]
  note above = fuel_hint_estimate [of ?above]
  have y_below: "pos_y (pos ?below) > 1" and y_above: "pos_y (pos ?above) \<le> 1"
    by (simp_all add: belowState_def surfaceState_def)
  have dy_below: "jsMax (Fin 0) (jsSub (Fin (of_int (pos_y (pos ?below)))) (Fin 1)) = Fin 2"
    by code_simp
  have dx_below: "jsAbs (jsSub (Fin (of_int (pos_x (pos ?below))))
                    (Fin (of_int (stationXOf ?below)))) = Fin 1"
    by code_simp
  have dy_above: "jsMax (Fin 0) (jsSub (Fin (of_int (pos_y (pos ?above)))) (Fin 1)) = Fin 0"
    by code_simp
  have dx_above: "jsAbs (jsSub (Fin (of_int (pos_x (pos ?above))))
                    (Fin (of_int (stationXOf ?above)))) = Fin 4"
    by code_simp
  have sum_below:
    "jsAdd (jsMul (Fin 2) (jsAdd (Fin (baseTurnFuelOf ?below)) (Fin 2)))
       (jsMul (Fin 1)
          (jsAdd (Fin (baseTurnFuelOf ?below)) (jsAdd (Fin (digFuelOf ?below)) (Fin 1))))
     = Fin (8894609264056729 / 1125899906842624)"
    by code_simp
  have sum_above:
    "jsAdd (jsMul (Fin 0) (jsAdd (Fin (baseTurnFuelOf ?above)) (Fin 2)))
       (jsMul (Fin 4) (jsAdd (Fin (baseTurnFuelOf ?above)) (Fin (1 / 2))))
     = Fin (5404319552844595 / 2251799813685248)"
    by code_simp
  have le_below: "\<not> jsLe (Fin (fuel_cur (fuel ?below))) (jsAdd (Fin (8894609264056729 / 1125899906842624)) (Fin 8))"
    by code_simp
  have le_above: "jsLe (Fin (fuel_cur (fuel ?above))) (jsAdd (Fin (5404319552844595 / 2251799813685248)) (Fin 8))"
    by code_simp
  from below have "returnDy (buildFuelHint ?below)
      = jsMax (Fin 0) (jsSub (Fin (of_int (pos_y (pos ?below)))) (Fin 1))"
    by blast
  then have rdy_below: "returnDy (buildFuelHint ?below) = Fin 2"
    unfolding dy_below .
  from below have "returnDx (buildFuelHint ?below)
      = jsAbs (jsSub (Fin (of_int (pos_x (pos ?below)))) (Fin (of_int (stationXOf ?below))))"
    by blast
  then have rdx_below: "returnDx (buildFuelHint ?below) = Fin 1"
    unfolding dx_below .
  from below y_below have "estReturnFuel (buildFuelHint ?below)
      = jsAdd (jsMul (returnDy (buildFuelHint ?below))
                 (jsAdd (Fin (baseTurnFuelOf ?below)) (Fin 2)))
              (jsMul (returnDx (buildFuelHint ?below))
                 (jsAdd (Fin (baseTurnFuelOf ?below))
                    (jsAdd (Fin (digFuelOf ?below)) (Fin 1))))"
    by blast
  then have est_below: "estReturnFuel (buildFuelHint ?below) = Fin (8894609264056729 / 1125899906842624)"
    unfolding rdy_below rdx_below sum_below .
  from below have "shouldReturn (buildFuelHint ?below)
      \<longleftrightarrow> jsLe (Fin (fuel_cur (fuel ?below)))
            (jsAdd (estReturnFuel (buildFuelHint ?below)) (Fin 8))"
    by blast
  with le_below have ret_below: "\<not> shouldReturn (buildFuelHint ?below)"
    unfolding est_below by blast
  from above have "returnDy (buildFuelHint ?above)
      = jsMax (Fin 0) (jsSub (Fin (of_int (pos_y (pos ?above)))) (Fin 1))"
    by blast
  then have rdy_above: "returnDy (buildFuelHint ?above) = Fin 0"
    unfolding dy_above .
  from above have "returnDx (buildFuelHint ?above)
      = jsAbs (jsSub (Fin (of_int (pos_x (pos ?above)))) (Fin (of_int (stationXOf ?above))))"
    by blast
  then have rdx_above: "returnDx (buildFuelHint ?above) = Fin 4"
    unfolding dx_above .
  from above y_above have "estReturnFuel (buildFuelHint ?above)
      = jsAdd (jsMul (returnDy (buildFuelHint ?above))
                 (jsAdd (Fin (baseTurnFuelOf ?above)) (Fin 2)))
              (jsMul (returnDx (buildFuelHint ?above))
                 (jsAdd (Fin (baseTurnFuelOf ?above)) (Fin (1 / 2))))"
    by blast
  then have est_above: "estReturnFuel (buildFuelHint ?above) = Fin (5404319552844595 / 2251799813685248)"
    unfolding rdy_above rdx_above sum_above .
  from above have "shouldReturn (buildFuelHint ?above)
      \<longleftrightarrow> jsLe (Fin (fuel_cur (fuel ?above)))
            (jsAdd (estReturnFuel (buildFuelHint ?above)) (Fin 8))"
    by blast
  with le_above have ret_above: "shouldReturn (buildFuelHint ?above)"
    unfolding est_above by blast
  from y_below est_below ret_below y_above est_above ret_above show ?thesis
    by blast
qed

section \<open>Properties of the fuel-run counter\<close>

lemma updateFuelRunCount_step:
  "runsOf (updateFuelRunCount session state)
     = runsOf session
       + (if truthy (atFuelStation state) \<and> \<not> truthy (lastAtStation session) then 1 else 0)"
  "truthy (lastAtStation (updateFuelRunCount session state)) = truthy (atFuelStation state)"
  by (auto simp: updateFuelRunCount_def runsOf_def truthy_def split: option.splits)

lemma foldl_updateFuelRunCount:
  "runsOf (foldl updateFuelRunCount session states)
     = runsOf session
       + int (risingEdges (truthy (lastAtStation session))
                (map (\<lambda>s. truthy (atFuelStation s)) states))"
proof (induction states arbitrary: session)
  case Nil
  show ?case by simp
next
  case (Cons s states)
  show ?case
    by (simp add: Cons.IH updateFuelRunCount_step)
qed

lemma fuelRuns_scenario:
  "fuelRuns (foldl updateFuelRunCount (newSession ident)
       (map (\<lambda>b. state \<lparr> atFuelStation := Some b \<rparr>) [True, True, False, True])) = Some 2"
  by (simp add: updateFuelRunCount_def newSession_def truthy_def)

text \<open>
  Claim C8. The fuel-run counter goes up by one exactly when the fuel-station flag of the
  state is true and was not true at the update before (or the session is new): over any
  sequence of updates it grows by the number of changes of the flag from false to true,
  and an update leaves the session as it is while the flag stays true. On a new session
  the flags true, true, false, true leave the counter at 2.
\<close>

theorem fuel_run_counter_counts_transitions:
  "(case fuelRuns (foldl updateFuelRunCount session states) of Some n \<Rightarrow> n | None \<Rightarrow> 0)
     = (case fuelRuns session of Some n \<Rightarrow> n | None \<Rightarrow> 0)
       + int (risingEdges (truthy (lastAtStation session))
                (map (\<lambda>s. truthy (atFuelStation s)) states))
   \<and> (truthy (atFuelStation state) \<and> truthy (lastAtStation session) \<longrightarrow>
        updateFuelRunCount session state = session)
   \<and> fuelRuns (foldl updateFuelRunCount (newSession ident)
        (map (\<lambda>b. state \<lparr> atFuelStation := Some b \<rparr>) [True, True, False, True])) = Some 2"
proof (intro conjI)
  show "(case fuelRuns (foldl updateFuelRunCount session states) of Some n \<Rightarrow> n | None \<Rightarrow> 0)
     = (case fuelRuns session of Some n \<Rightarrow> n | None \<Rightarrow> 0)
       + int (risingEdges (truthy (lastAtStation session))
                (map (\<lambda>s. truthy (atFuelStation s)) states))"
    using foldl_updateFuelRunCount [of session states] by (simp add: runsOf_def)
  show "truthy (atFuelStation state) \<and> truthy (lastAtStation session) \<longrightarrow>
        updateFuelRunCount session state = session"
    by (simp add: updateFuelRunCount_def)
  show "fuelRuns (foldl updateFuelRunCount (newSession ident)
        (map (\<lambda>b. state \<lparr> atFuelStation := Some b \<rparr>) [True, True, False, True])) = Some 2"
    by (rule fuelRuns_scenario)
qed

theorem fuel_run_counter_counts_transitions_witness:
  "truthy (atFuelStation (exampleState \<lparr> atFuelStation := Some True \<rparr>))
   \<and> truthy (lastAtStation ((newSession ''s'') \<lparr> lastAtStation := Some True \<rparr>))
   \<and> updateFuelRunCount ((newSession ''s'') \<lparr> lastAtStation := Some True \<rparr>)
         (exampleState \<lparr> atFuelStation := Some True \<rparr>)
       = (newSession ''s'') \<lparr> lastAtStation := Some True \<rparr>
   \<and> fuelRuns (foldl updateFuelRunCount (newSession ''s'')
        (map (\<lambda>b. exampleState \<lparr> atFuelStation := Some b \<rparr>) [True, True, False, True]))
       = Some 2"
proof -
  note inst = fuel_run_counter_counts_transitions
                [of "(newSession ''s'') \<lparr> lastAtStation := Some True \<rparr>" "[]"
                    "exampleState \<lparr> atFuelStation := Some True \<rparr>" "''s''"]
  have a: "truthy (atFuelStation (exampleState \<lparr> atFuelStation := Some True \<rparr>))"
    and b: "truthy (lastAtStation ((newSession ''s'') \<lparr> lastAtStation := Some True \<rparr>))"
    by (simp_all add: truthy_def)
  from inst a b
  have c: "updateFuelRunCount ((newSession ''s'') \<lparr> lastAtStation := Some True \<rparr>)
             (exampleState \<lparr> atFuelStation := Some True \<rparr>)
           = (newSession ''s'') \<lparr> lastAtStation := Some True \<rparr>"
    by blast
  from inst
  have d: "fuelRuns (foldl updateFuelRunCount (newSession ''s'')
        (map (\<lambda>b. exampleState \<lparr> atFuelStation := Some True \<rparr> \<lparr> atFuelStation := Some b \<rparr>)
           [True, True, False, True])) = Some 2"
    by blast
  have e: "\<And>b. exampleState \<lparr> atFuelStation := Some True \<rparr> \<lparr> atFuelStation := Some b \<rparr>
              = exampleState \<lparr> atFuelStation := Some b \<rparr>"
    by simp
  from a b c d show ?thesis
    unfolding e by blast
qed

section \<open>Exits of the protocol engine\<close>

text \<open>
  Claim C9. Without an API key the planner sends no request to the model and changes no
  variable of the module; its response carries the note \<open>fallback-no-key\<close> and the plan
  of the fallback planner, which is never empty and has \<open>min(planLength, 10)\<close> actions when
  \<open>planLength\<close> is at least 1.
\<close>

theorem no_key_routes_to_fallback:
  assumes "OPENROUTER_API_KEY cfg = []"
  shows "snd (callOpenRouterPlan cfg primary correction w state planLength sessionId) = w
   \<and> resp_note (fst (callOpenRouterPlan cfg primary correction w state planLength sessionId))
       = ''fallback-no-key''
   \<and> resp_actions (fst (callOpenRouterPlan cfg primary correction w state planLength sessionId))
       = planActions state planLength
   \<and> resp_actions (fst (callOpenRouterPlan cfg primary correction w state planLength sessionId))
       \<noteq> []
   \<and> (1 \<le> planLength \<longrightarrow>
        int (length (resp_actions
              (fst (callOpenRouterPlan cfg primary correction w state planLength sessionId))))
          = min planLength 10)"
proof -
  have call: "callOpenRouterPlan cfg primary correction w state planLength sessionId
      = (\<lparr> resp_actions = planActions state planLength,
           resp_note = ''fallback-no-key'',
           resp_model = OPENROUTER_MODEL cfg,
           resp_reasoning = None,
           resp_status = None \<rparr>, w)"
    using assms by (simp add: callOpenRouterPlan_def)
  have len: "1 \<le> planLength \<longrightarrow> int (length (planActions state planLength)) = min planLength 10"
    by (auto simp: length_planActions clampPlanLength_def)
  show ?thesis
    unfolding call using len planActions_nonempty [of state planLength] by simp
qed

theorem no_key_routes_to_fallback_witness:
  "OPENROUTER_API_KEY defaultConfig = []
   \<and> (1::int) \<le> 3
   \<and> resp_note (fst (callOpenRouterPlan defaultConfig (Replied None None) (Replied None None)
                       initialModule syntheticState 3 None))
       = ''fallback-no-key''
   \<and> length (resp_actions
         (fst (callOpenRouterPlan defaultConfig (Replied None None) (Replied None None)
                 initialModule syntheticState 3 None))) = 3
   \<and> snd (callOpenRouterPlan defaultConfig (Replied None None) (Replied None None)
             initialModule syntheticState 3 None) = initialModule"
proof -
  have key: "OPENROUTER_API_KEY defaultConfig = []"
    by (simp add: defaultConfig_def)
  note inst = no_key_routes_to_fallback
                [OF key, of "Replied None None" "Replied None None" initialModule
                    syntheticState 3 None]
  from inst
  have n: "resp_note (fst (callOpenRouterPlan defaultConfig (Replied None None)
                            (Replied None None) initialModule syntheticState 3 None))
           = ''fallback-no-key''"
    by blast
  from inst
  have m: "snd (callOpenRouterPlan defaultConfig (Replied None None) (Replied None None)
                  initialModule syntheticState 3 None) = initialModule"
    by blast
  from inst
  have "(1::int) \<le> 3 \<longrightarrow> int (length (resp_actions
         (fst (callOpenRouterPlan defaultConfig (Replied None None) (Replied None None)
                 initialModule syntheticState 3 None)))) = min 3 10"
    by blast
  then have l: "length (resp_actions
         (fst (callOpenRouterPlan defaultConfig (Replied None None) (Replied None None)
                 initialModule syntheticState 3 None))) = 3"
    by simp
  have "(1::int) \<le> 3"
    by simp
  with key n l m show ?thesis
    by blast
qed

text \<open>
  Claim C3. When the request to the upstream model fails, for whatever reason (a network
  error, an abort from outside, an abort by the timeout), the response has the status
  \<open>api_error\<close> and no actions: no fallback plan takes their place, and no corrective
  request is sent.
\<close>

theorem upstream_failure_is_api_error:
  assumes "OPENROUTER_API_KEY cfg \<noteq> []"
    and "\<not> (MAX_PLANS_PER_SESSION cfg > 0 \<and> planCount w \<ge> MAX_PLANS_PER_SESSION cfg)"
  shows "resp_status (fst (callOpenRouterPlan cfg (Threw errName errMessage abortedByTimeout)
                              correction w state planLength sessionId)) = Some ''api_error''
   \<and> resp_actions (fst (callOpenRouterPlan cfg (Threw errName errMessage abortedByTimeout)
                              correction w state planLength sessionId)) = []
   \<and> resp_note (fst (callOpenRouterPlan cfg (Threw errName errMessage abortedByTimeout)
                              correction w state planLength sessionId)) = ''api-error''
   \<and> upstreamCalls (snd (callOpenRouterPlan cfg (Threw errName errMessage abortedByTimeout)
                              correction w state planLength sessionId)) = upstreamCalls w + 1
   \<and> planCount (snd (callOpenRouterPlan cfg (Threw errName errMessage abortedByTimeout)
                              correction w state planLength sessionId)) = planCount w"
  using assms
  by (simp add: callOpenRouterPlan_def Let_def storeSession_def getSession_def
           split: prod.splits option.splits)

theorem upstream_failure_is_api_error_witness:
  "OPENROUTER_API_KEY (defaultConfig \<lparr> OPENROUTER_API_KEY := ''k'' \<rparr>) \<noteq> []
   \<and> resp_status (fst (callOpenRouterPlan (defaultConfig \<lparr> OPENROUTER_API_KEY := ''k'' \<rparr>)
                         (Threw ''AbortError'' ''Request was aborted.'' True) (Replied None None)
                         initialModule exampleState 3 None)) = Some ''api_error''
   \<and> resp_actions (fst (callOpenRouterPlan (defaultConfig \<lparr> OPENROUTER_API_KEY := ''k'' \<rparr>)
                         (Threw ''AbortError'' ''Request was aborted.'' True) (Replied None None)
                         initialModule exampleState 3 None)) = []"
proof -
  have key: "OPENROUTER_API_KEY (defaultConfig \<lparr> OPENROUTER_API_KEY := ''k'' \<rparr>) \<noteq> []"
    by simp
  have budget: "\<not> (MAX_PLANS_PER_SESSION (defaultConfig \<lparr> OPENROUTER_API_KEY := ''k'' \<rparr>) > 0
       \<and> planCount initialModule
           \<ge> MAX_PLANS_PER_SESSION (defaultConfig \<lparr> OPENROUTER_API_KEY := ''k'' \<rparr>))"
    by (simp add: defaultConfig_def)
  from upstream_failure_is_api_error
         [OF key budget, of "''AbortError''" "''Request was aborted.''" True
             "Replied None None" exampleState 3 None]
       key
  show ?thesis
    by blast
qed

section \<open>Properties of the spatial memory\<close>

lemma setCells_simps [simp]:
  "setCells s [] = s"
  "setCells s (c # cs) = setCells (setCell (fst (fst c)) (snd (fst c)) (snd c) s) cs"
  "setCells s (cs @ ds) = setCells (setCells s cs) ds"
  by (simp_all add: setCells_def)

lemma rowLoop_setCells: "rowLoop baseX gy rx row s = setCells s (rowCells baseX gy rx row)"
  by (induction row arbitrary: rx s) simp_all

lemma scanLoop_setCells:
  "scanLoop baseX baseY ry rows s = setCells s (scanCells baseX baseY ry rows)"
  by (induction rows arbitrary: ry s) (simp_all add: rowLoop_setCells split: scan_row.splits)

lemma singleton_keys:
  assumes "length al = 1" and "k \<in> fst ` set al"
  shows "fst ` set al = {k}"
  using assms by (cases al) auto

lemma setCell_known: "known (setCell gx gy t s) = AList.update (gx, gy) t (known s)"
  by (simp add: setCell_def Let_def)

lemma setCell_keys: "fst ` set (known (setCell gx gy t s)) = insert (gx, gy) (fst ` set (known s))"
  by (simp add: setCell_known dom_update)

lemma setCell_bounds:
  "bounds (setCell gx gy t s)
     = (if length (AList.update (gx, gy) t (known s)) = 1
        then \<lparr> minX = gx, maxX = gx, minY = gy, maxY = gy \<rparr>
        else \<lparr> minX = min (minX (bounds s)) gx, maxX = max (maxX (bounds s)) gx,
               minY = min (minY (bounds s)) gy, maxY = max (maxY (bounds s)) gy \<rparr>)"
  by (simp add: setCell_def Let_def)

lemma setCell_boxInvariant:
  assumes "boxInvariant s"
  shows "boxInvariant (setCell gx gy t s)"
proof (cases "length (AList.update (gx, gy) t (known s)) = 1")
  case True
  have "(gx, gy) \<in> fst ` set (AList.update (gx, gy) t (known s))"
    by (simp add: dom_update)
  with True have "fst ` set (AList.update (gx, gy) t (known s)) = {(gx, gy)}"
    by (rule singleton_keys)
  with True show ?thesis
    by (simp add: boxInvariant_def setCell_bounds setCell_known inBox_def)
next
  case False
  with assms show ?thesis
    by (auto simp: boxInvariant_def setCell_bounds setCell_known dom_update inBox_def)
qed

lemma setCells_boxInvariant: "boxInvariant s \<Longrightarrow> boxInvariant (setCells s cs)"
  by (induction cs arbitrary: s) (simp_all add: setCell_boxInvariant)

lemma updateMemory_known_bounds:
  "known (updateMemory s state)
     = (case localScan state of
          NotAnArray \<Rightarrow> known s
        | ScanRows rows \<Rightarrow>
            known (setCells s (scanCells (pos_x (pos state) - 2) (pos_y (pos state) - 2) 0 rows)))"
  "bounds (updateMemory s state)
     = (case localScan state of
          NotAnArray \<Rightarrow> bounds s
        | ScanRows rows \<Rightarrow>
            bounds (setCells s (scanCells (pos_x (pos state) - 2) (pos_y (pos state) - 2) 0 rows)))"
  by (simp_all add: updateMemory_def Let_def scanLoop_setCells split: scan.splits)

lemma updateMemory_boxInvariant:
  assumes "boxInvariant s"
  shows "boxInvariant (updateMemory s state)"
proof (cases "localScan state")
  case NotAnArray
  with assms show ?thesis by (simp add: updateMemory_def)
next
  case (ScanRows rows)
  from assms
  have "boxInvariant (setCells s (scanCells (pos_x (pos state) - 2) (pos_y (pos state) - 2) 0 rows))"
    by (rule setCells_boxInvariant)
  then show ?thesis
    unfolding boxInvariant_def updateMemory_known_bounds ScanRows by simp
qed

lemma foldl_updateMemory_boxInvariant:
  "boxInvariant s \<Longrightarrow> boxInvariant (foldl updateMemory s states)"
  by (induction states arbitrary: s) (simp_all add: updateMemory_boxInvariant)

lemma newSession_boxInvariant: "boxInvariant (newSession ident)"
  by (simp add: boxInvariant_def newSession_def)

text \<open>
  Claim C6. After any sequence of memory updates on a new session the bounding box is
  well formed, \<open>minX \<le> maxX\<close> and \<open>minY \<le> maxY\<close>, and every position that is a key of the
  map of known tiles lies inside the box.
\<close>

theorem bounding_box_invariant:
  "minX (bounds (foldl updateMemory (newSession ident) states))
     \<le> maxX (bounds (foldl updateMemory (newSession ident) states))
   \<and> minY (bounds (foldl updateMemory (newSession ident) states))
     \<le> maxY (bounds (foldl updateMemory (newSession ident) states))
   \<and> (\<forall>((gx, gy), t) \<in> set (known (foldl updateMemory (newSession ident) states)).
         minX (bounds (foldl updateMemory (newSession ident) states)) \<le> gx
         \<and> gx \<le> maxX (bounds (foldl updateMemory (newSession ident) states))
         \<and> minY (bounds (foldl updateMemory (newSession ident) states)) \<le> gy
         \<and> gy \<le> maxY (bounds (foldl updateMemory (newSession ident) states)))"
proof -
  have "boxInvariant (foldl updateMemory (newSession ident) states)"
    by (intro foldl_updateMemory_boxInvariant newSession_boxInvariant)
  then show ?thesis
    unfolding boxInvariant_def inBox_def by force
qed

theorem bounding_box_invariant_witness:
  "((11, 1), CHR ''o'')
     \<in> set (known (foldl updateMemory (newSession ''s'')
                   [exampleState \<lparr> pos := \<lparr> pos_x = 10, pos_y = 1, pos_depth = 0 \<rparr> \<rparr>]))
   \<and> minX (bounds (foldl updateMemory (newSession ''s'')
                   [exampleState \<lparr> pos := \<lparr> pos_x = 10, pos_y = 1, pos_depth = 0 \<rparr> \<rparr>])) \<le> 11
   \<and> 11 \<le> maxX (bounds (foldl updateMemory (newSession ''s'')
                   [exampleState \<lparr> pos := \<lparr> pos_x = 10, pos_y = 1, pos_depth = 0 \<rparr> \<rparr>]))
   \<and> minY (bounds (foldl updateMemory (newSession ''s'')
                   [exampleState \<lparr> pos := \<lparr> pos_x = 10, pos_y = 1, pos_depth = 0 \<rparr> \<rparr>])) \<le> 1
   \<and> 1 \<le> maxY (bounds (foldl updateMemory (newSession ''s'')
                   [exampleState \<lparr> pos := \<lparr> pos_x = 10, pos_y = 1, pos_depth = 0 \<rparr> \<rparr>]))"
proof -
  let ?s = "foldl updateMemory (newSession ''s'')
              [exampleState \<lparr> pos := \<lparr> pos_x = 10, pos_y = 1, pos_depth = 0 \<rparr> \<rparr>]"
  have mem: "((11, 1), CHR ''o'') \<in> set (known ?s)"
    by code_simp
  note inst = bounding_box_invariant
                [of "''s''" "[exampleState \<lparr> pos := \<lparr> pos_x = 10, pos_y = 1, pos_depth = 0 \<rparr> \<rparr>]"]
  from inst have "\<forall>((gx, gy), t) \<in> set (known ?s).
       minX (bounds ?s) \<le> gx \<and> gx \<le> maxX (bounds ?s)
       \<and> minY (bounds ?s) \<le> gy \<and> gy \<le> maxY (bounds ?s)"
    by blast
  from bspec [OF this mem] mem show ?thesis
    by simp
qed

lemma setCell_pointOK: "pointOK (setCell gx gy t s)"
proof (cases "length (AList.update (gx, gy) t (known s)) = 1")
  case True
  have "(gx, gy) \<in> fst ` set (AList.update (gx, gy) t (known s))"
    by (simp add: dom_update)
  with True have "fst ` set (AList.update (gx, gy) t (known s)) = {(gx, gy)}"
    by (rule singleton_keys)
  with True show ?thesis
    by (simp add: pointOK_def setCell_bounds setCell_known)
next
  case False
  then show ?thesis
    by (simp add: pointOK_def setCell_known)
qed

lemma setCells_pointOK: "cs \<noteq> [] \<Longrightarrow> pointOK (setCells s cs)"
  by (induction cs rule: rev_induct) (simp_all add: setCell_pointOK)

lemma setCell_inBox: "inBox (bounds (setCell gx gy t s)) (gx, gy)"
  by (simp add: setCell_bounds inBox_def)

lemma setCell_inBox_mono:
  assumes "inBox (bounds s) k" and "k \<in> fst ` set (known s)"
  shows "inBox (bounds (setCell gx gy t s)) k"
proof (cases "length (AList.update (gx, gy) t (known s)) = 1")
  case True
  have "(gx, gy) \<in> fst ` set (AList.update (gx, gy) t (known s))"
    by (simp add: dom_update)
  with True have "fst ` set (AList.update (gx, gy) t (known s)) = {(gx, gy)}"
    by (rule singleton_keys)
  with assms(2) have "k = (gx, gy)"
    by (auto simp: dom_update)
  then show ?thesis
    by (simp add: setCell_inBox)
next
  case False
  with assms(1) show ?thesis
    by (auto simp: setCell_bounds inBox_def)
qed

lemma setCells_snoc:
  "setCells s (cs @ [c]) = setCell (fst (fst c)) (snd (fst c)) (snd c) (setCells s cs)"
  by simp

lemma setCells_lookup:
  assumes "distinct (map fst cs)"
  shows "\<forall>p \<in> set cs. map_of (known (setCells s cs)) (fst p) = Some (snd p)"
  using assms
proof (induction cs rule: rev_induct)
  case Nil
  show ?case by simp
next
  case (snoc c cs)
  from snoc.prems have d: "distinct (map fst cs)" and nin: "fst c \<notin> fst ` set cs"
    by simp_all
  from snoc.IH [OF d]
  have IH: "\<forall>p \<in> set cs. map_of (known (setCells s cs)) (fst p) = Some (snd p)" .
  from nin have new: "\<forall>p \<in> set cs. fst p \<noteq> fst c"
    by (metis image_eqI)
  have upd: "map_of (known (setCells s (cs @ [c])))
             = (map_of (known (setCells s cs)))(fst c \<mapsto> snd c)"
    unfolding setCells_snoc by (simp add: setCell_known update_conv')
  show ?case
    unfolding upd using IH new by auto
qed

lemma setCells_inBox:
  assumes "distinct (map fst cs)"
  shows "\<forall>p \<in> set cs. inBox (bounds (setCells s cs)) (fst p)"
  using assms
proof (induction cs rule: rev_induct)
  case Nil
  show ?case by simp
next
  case (snoc c cs)
  then have d: "distinct (map fst cs)" by simp
  with snoc.IH have IH: "\<forall>p \<in> set cs. inBox (bounds (setCells s cs)) (fst p)"
    by simp
  from setCells_lookup [OF d, of s]
  have keys: "\<forall>p \<in> set cs. fst p \<in> fst ` set (known (setCells s cs))"
    by (metis map_of_SomeD fst_conv image_eqI)
  have last: "inBox (bounds (setCells s (cs @ [c]))) (fst c)"
    unfolding setCells_snoc
    using setCell_inBox [of "fst (fst c)" "snd (fst c)" "snd c" "setCells s cs"] by simp
  have earlier: "\<forall>p \<in> set cs. inBox (bounds (setCells s (cs @ [c]))) (fst p)"
    unfolding setCells_snoc using IH keys by (blast intro: setCell_inBox_mono)
  from last earlier show ?case
    by simp
qed

lemma setCell_same:
  assumes look: "map_of (known s) (gx, gy) = Some t"
    and box: "inBox (bounds s) (gx, gy)"
    and point: "pointOK s"
  shows "setCell gx gy t s = s"
proof -
  have known_same: "AList.update (gx, gy) t (known s) = known s"
    using look by (rule update_triv)
  have key: "(gx, gy) \<in> fst ` set (known s)"
    using look by (metis map_of_SomeD fst_conv image_eqI)
  have "bounds (setCell gx gy t s) = bounds s"
  proof (cases "length (known s) = 1")
    case True
    with point key
    have "bounds s = \<lparr> minX = gx, maxX = gx, minY = gy, maxY = gy \<rparr>"
      unfolding pointOK_def by fastforce
    with True show ?thesis
      by (simp add: setCell_bounds known_same)
  next
    case False
    with box show ?thesis
      by (simp add: setCell_bounds known_same inBox_def min_def max_def)
  qed
  then show ?thesis
    by (simp add: setCell_def Let_def known_same)
qed

lemma setCells_same:
  assumes "\<forall>p \<in> set cs. map_of (known s) (fst p) = Some (snd p)"
    and "\<forall>p \<in> set cs. inBox (bounds s) (fst p)"
    and "pointOK s"
  shows "setCells s cs = s"
  using assms
proof (induction cs)
  case Nil
  show ?case by simp
next
  case (Cons c cs)
  have "setCell (fst (fst c)) (snd (fst c)) (snd c) s = s"
    using Cons.prems by (intro setCell_same) simp_all
  with Cons show ?case
    by simp
qed

lemma rowCells_keys:
  "\<forall>p \<in> set (rowCells baseX gy rx row). snd (fst p) = gy \<and> baseX + int rx \<le> fst (fst p)"
  by (induction row arbitrary: rx) fastforce+

lemma rowCells_distinct: "distinct (map fst (rowCells baseX gy rx row))"
proof (induction row arbitrary: rx)
  case Nil
  show ?case by simp
next
  case (Cons t row)
  have "\<forall>p \<in> set (rowCells baseX gy (Suc rx) row). fst p \<noteq> (baseX + int rx, gy)"
    using rowCells_keys [of baseX gy "Suc rx" row] by fastforce
  with Cons show ?case
    by (auto simp: image_iff)
qed

lemma scanCells_keys:
  "\<forall>p \<in> set (scanCells baseX baseY ry rows). baseY + int ry \<le> snd (fst p)"
proof (induction rows arbitrary: ry)
  case Nil
  show ?case by simp
next
  case (Cons r rows)
  have "\<forall>p \<in> set (scanCells baseX baseY (Suc ry) rows). baseY + int ry \<le> snd (fst p)"
    using Cons [of "Suc ry"] by fastforce
  then have later: "\<forall>p \<in> set (scanCells baseX baseY (Suc ry) rows). baseY + int ry \<le> snd (fst p)" .
  show ?case
  proof (cases r)
    case NotAString
    with later show ?thesis by simp
  next
    case (Row row)
    have "\<forall>p \<in> set (rowCells baseX (baseY + int ry) 0 row). baseY + int ry \<le> snd (fst p)"
      using rowCells_keys [of baseX "baseY + int ry" 0 row] by fastforce
    with later Row show ?thesis
      by auto
  qed
qed

lemma scanCells_distinct: "distinct (map fst (scanCells baseX baseY ry rows))"
proof (induction rows arbitrary: ry)
  case Nil
  show ?case by simp
next
  case (Cons r rows)
  show ?case
  proof (cases r)
    case NotAString
    with Cons show ?thesis by simp
  next
    case (Row row)
    have later: "\<forall>p \<in> set (scanCells baseX baseY (Suc ry) rows). baseY + int ry < snd (fst p)"
      using scanCells_keys [of baseX baseY "Suc ry" rows] by fastforce
    have here: "\<forall>p \<in> set (rowCells baseX (baseY + int ry) 0 row). snd (fst p) = baseY + int ry"
      using rowCells_keys [of baseX "baseY + int ry" 0 row] by blast
    from later here
    have "fst ` set (rowCells baseX (baseY + int ry) 0 row)
            \<inter> fst ` set (scanCells baseX baseY (Suc ry) rows) = {}"
      by fastforce
    with Cons Row show ?thesis
      by (simp add: rowCells_distinct)
  qed
qed

lemma setCells_twice:
  assumes "distinct (map fst cs)"
  shows "setCells (setCells s cs) cs = setCells s cs"
proof (cases "cs = []")
  case True
  then show ?thesis by simp
next
  case False
  then have "pointOK (setCells s cs)"
    by (rule setCells_pointOK)
  with setCells_lookup [OF assms, of s] setCells_inBox [OF assms, of s]
  show ?thesis
    by (intro setCells_same)
qed

lemma setCell_visited:
  "setCell gx gy t (s \<lparr> visited := v \<rparr>) = (setCell gx gy t s) \<lparr> visited := v \<rparr>"
  by (simp add: setCell_def Let_def)

lemma setCells_visited:
  "setCells (s \<lparr> visited := v \<rparr>) cs = (setCells s cs) \<lparr> visited := v \<rparr>"
  by (induction cs arbitrary: s) (simp_all add: setCell_visited)

text \<open>
  Claim C7. For every session and every state, updating the memory twice with the same
  state leaves the map of known tiles and the bounding box as one update leaves them.
\<close>

theorem updateMemory_idempotent:
  "known (updateMemory (updateMemory session state) state) = known (updateMemory session state)
   \<and> bounds (updateMemory (updateMemory session state) state)
       = bounds (updateMemory session state)"
proof (cases "localScan state")
  case NotAnArray
  then show ?thesis by (simp add: updateMemory_def)
next
  case (ScanRows rows)
  define cs where "cs = scanCells (pos_x (pos state) - 2) (pos_y (pos state) - 2) 0 rows"
  have d: "distinct (map fst cs)"
    unfolding cs_def by (rule scanCells_distinct)
  have once: "known (updateMemory s state) = known (setCells s cs)"
             "bounds (updateMemory s state) = bounds (setCells s cs)" for s
    unfolding updateMemory_known_bounds ScanRows cs_def by simp_all
  obtain v where first: "updateMemory session state = (setCells session cs) \<lparr> visited := v \<rparr>"
    unfolding updateMemory_def ScanRows cs_def by (simp add: Let_def scanLoop_setCells)
  have "setCells ((setCells session cs) \<lparr> visited := v \<rparr>) cs
          = (setCells session cs) \<lparr> visited := v \<rparr>"
    unfolding setCells_visited setCells_twice [OF d] ..
  then show ?thesis
    unfolding once first by simp
qed

section \<open>Properties of the token grammar\<close>

lemma splitWs_nonempty: "splitWs s \<noteq> []"
  by (induction s rule: splitWs.induct) (auto split: list.splits)

lemma splitWs_no_space: "\<forall>t \<in> set (splitWs s). \<forall>c \<in> set t. \<not> isSpace c"
proof (induction s rule: splitWs.induct)
  case 1
  show ?case by simp
next
  case (2 c cs)
  show ?case
  proof (cases "isSpace c")
    case True
    with 2(1) show ?thesis by simp
  next
    case False
    obtain t ts where sp: "splitWs cs = t # ts"
      using splitWs_nonempty [of cs] by (cases "splitWs cs") simp_all
    from 2(2) [OF False] sp have "\<forall>c \<in> set t. \<not> isSpace c"
      and "\<forall>t' \<in> set ts. \<forall>c \<in> set t'. \<not> isSpace c"
      by simp_all
    with False sp show ?thesis by simp
  qed
qed

lemma tokenize_words: "\<forall>t \<in> set (tokenize s). word t"
  using splitWs_no_space [of "trim s"]
  by (auto simp: tokenize_def word_def list_all_iff)

lemma splitWs_word_append:
  "list_all (\<lambda>c. \<not> isSpace c) t \<Longrightarrow> splitWs (t @ r) = (t @ hd (splitWs r)) # tl (splitWs r)"
proof (induction t)
  case Nil
  show ?case by (simp add: splitWs_nonempty)
next
  case (Cons c t)
  then have c: "\<not> isSpace c" and t: "list_all (\<lambda>c. \<not> isSpace c) t" by simp_all
  from Cons.IH [OF t] c show ?case by simp
qed

lemma dropWhile_spaces:
  "spaces sep \<Longrightarrow> r = [] \<or> \<not> isSpace (hd r) \<Longrightarrow> dropWhile isSpace (sep @ r) = r"
proof (induction sep)
  case Nil
  then show ?case by (cases r) simp_all
next
  case (Cons c sep)
  then show ?case by (simp add: spaces_def)
qed

lemma splitWs_spaces:
  assumes "sep \<noteq> []" "spaces sep" "r = [] \<or> \<not> isSpace (hd r)"
  shows "splitWs (sep @ r) = [] # splitWs r"
proof -
  from assms obtain c cs where sep: "sep = c # cs" and c: "isSpace c" and cs: "spaces cs"
    by (cases sep) (auto simp: spaces_def)
  from cs assms(3) have "dropWhile isSpace (cs @ r) = r"
    by (rule dropWhile_spaces)
  with c show ?thesis
    by (simp add: sep)
qed

lemma word_ends: "word t \<Longrightarrow> t \<noteq> [] \<and> \<not> isSpace (hd t) \<and> \<not> isSpace (last t)"
  unfolding word_def list_all_iff using hd_in_set last_in_set by blast

lemma core_ends:
  "separated pieces \<Longrightarrow> pieces \<noteq> [] \<Longrightarrow>
     core pieces \<noteq> [] \<and> \<not> isSpace (hd (core pieces)) \<and> \<not> isSpace (last (core pieces))"
proof (induction pieces rule: separated.induct)
  case 1
  then show ?case by simp
next
  case (2 t sep)
  then have "word t" by simp
  then show ?case using word_ends [of t] by simp
next
  case (3 t sep p ps)
  then have t: "word t" and rest: "core (p # ps) \<noteq> []"
       "\<not> isSpace (last (core (p # ps)))"
    by simp_all
  from word_ends [OF t] have "t \<noteq> []" "\<not> isSpace (hd t)" by simp_all
  with rest show ?case by simp
qed

lemma splitWs_core:
  "separated pieces \<Longrightarrow> pieces \<noteq> [] \<Longrightarrow> splitWs (core pieces) = map fst pieces"
proof (induction pieces rule: separated.induct)
  case 1
  then show ?case by simp
next
  case (2 t sep)
  then show ?case
    using splitWs_word_append [of t "[]"] by (simp add: word_def)
next
  case (3 t sep p ps)
  then have rest: "splitWs (core (p # ps)) = map fst (p # ps)"
    and ends: "\<not> isSpace (hd (core (p # ps)))"
    using core_ends [of "p # ps"] by simp_all
  from 3 have "splitWs (sep @ core (p # ps)) = [] # splitWs (core (p # ps))"
    by (intro splitWs_spaces) (simp_all add: ends)
  with 3 rest show ?case
    using splitWs_word_append [of t "sep @ core (p # ps)"] by (simp add: word_def)
qed

lemma layout_core:
  "separated pieces \<Longrightarrow>
     concat (map (\<lambda>(t, sep). t @ sep) pieces)
       = core pieces @ (if pieces = [] then [] else snd (last pieces))"
  by (induction pieces rule: separated.induct) simp_all

lemma separated_trail: "separated pieces \<Longrightarrow> pieces \<noteq> [] \<Longrightarrow> spaces (snd (last pieces))"
  by (induction pieces rule: separated.induct) simp_all

lemma separated_words: "separated pieces \<Longrightarrow> \<forall>p \<in> set pieces. word (fst p)"
  by (induction pieces rule: separated.induct) simp_all

lemma trim_core:
  assumes "spaces lead" "spaces trail"
    and "c = [] \<or> (\<not> isSpace (hd c) \<and> \<not> isSpace (last c))"
  shows "trim (lead @ c @ trail) = c"
proof (cases "c = []")
  case True
  from assms(1,2) have e: "dropWhile isSpace (lead @ trail) = []"
    by (auto simp: spaces_def list_all_iff)
  show ?thesis
    unfolding trim_def True append_Nil e by simp
next
  case False
  with assms(3) have h: "\<not> isSpace (hd c)" and l: "\<not> isSpace (last c)" by simp_all
  from assms(1) False h have front: "dropWhile isSpace (lead @ c @ trail) = c @ trail"
    by (intro dropWhile_spaces) (simp_all add: hd_append)
  from assms(2) have "spaces (rev trail)"
    by (simp add: spaces_def list_all_iff)
  moreover from False l have "rev c = [] \<or> \<not> isSpace (hd (rev c))"
    by (simp add: hd_rev)
  ultimately have "dropWhile isSpace (rev trail @ rev c) = rev c"
    by (rule dropWhile_spaces)
  with front show ?thesis
    by (simp add: trim_def)
qed

lemma tokenize_layout:
  assumes "spaces lead" "separated pieces"
  shows "tokenize (layout lead pieces) = map fst pieces"
proof (cases "pieces = []")
  case True
  from assms(1) have "trim (lead @ [] @ []) = []"
    by (intro trim_core) (simp_all add: spaces_def)
  with True show ?thesis
    by (simp add: tokenize_def layout_def)
next
  case False
  from assms(2) False have ends: "core pieces = [] \<or>
      (\<not> isSpace (hd (core pieces)) \<and> \<not> isSpace (last (core pieces)))"
    using core_ends [of pieces] by simp
  from assms(2) False have "spaces (snd (last pieces))"
    by (rule separated_trail)
  with assms(1) ends
  have "trim (lead @ core pieces @ snd (last pieces)) = core pieces"
    by (intro trim_core)
  with False assms(2) have "trim (layout lead pieces) = core pieces"
    by (simp add: layout_def layout_core)
  moreover from assms(2) False have "splitWs (core pieces) = map fst pieces"
    by (rule splitWs_core)
  moreover from assms(2) have "\<forall>p \<in> set pieces. fst p \<noteq> []"
    using separated_words [of pieces] by (auto simp: word_def)
  ultimately show ?thesis
    by (simp add: tokenize_def filter_map comp_def filter_id_conv)
qed

lemma stripPrefix_Some: "stripPrefix p s = Some r \<longleftrightarrow> s = p @ r"
  by (induction p s rule: stripPrefix.induct) auto

lemma tokenSchema_iff: "tokenSchema t \<longleftrightarrow> (\<exists>tok. t = tokenText tok)"
proof
  assume "tokenSchema t"
  then consider "t = ''SURFACE_OPS''"
    | r where "t = ''MOVE:'' @ r" "r \<in> set [''U'', ''D'', ''L'', ''R'']"
    | r where "t = ''UPGRADE:'' @ r" "r \<in> set [''FUEL'', ''CARGO'', ''HULL'', ''DRILL'']"
    unfolding tokenSchema_def by (auto simp: stripPrefix_Some split: option.splits)
  then show "\<exists>tok. t = tokenText tok"
  proof cases
    case 1
    then have "t = tokenText TokSurfaceOps" by simp
    then show ?thesis ..
  next
    case 2
    then have "t = tokenText (TokMove DirU) \<or> t = tokenText (TokMove DirD)
               \<or> t = tokenText (TokMove DirL) \<or> t = tokenText (TokMove DirR)"
      by auto
    then show ?thesis by blast
  next
    case 3
    then have "t = tokenText (TokUpgrade KindFUEL) \<or> t = tokenText (TokUpgrade KindCARGO)
               \<or> t = tokenText (TokUpgrade KindHULL) \<or> t = tokenText (TokUpgrade KindDRILL)"
      by auto
    then show ?thesis by blast
  qed
next
  assume "\<exists>tok. t = tokenText tok"
  then obtain tok where t: "t = tokenText tok" ..
  show "tokenSchema t"
  proof (cases tok)
    case TokSurfaceOps
    with t show ?thesis by (simp add: tokenSchema_def)
  next
    case (TokMove d)
    with t show ?thesis by (cases d) (simp_all add: tokenSchema_def)
  next
    case (TokUpgrade k)
    with t show ?thesis by (cases k) (simp_all add: tokenSchema_def)
  qed
qed

lemma trim_word: "word t \<Longrightarrow> trim t = t"
  using trim_core [of "[]" "[]" t] word_ends [of t] by (simp add: spaces_def)

lemma parse_tokenText:
  "(let t = tokenText tok
    in if t = ''SURFACE_OPS'' then Some (SURFACE_OPS ''Planned action.'')
       else if startsWith t ''UPGRADE:'' then Some (UPGRADE (afterColon t) ''Planned action.'')
       else if startsWith t ''MOVE:'' then Some (MOVE (afterColon t) ''Planned action.'')
       else None) = Some (plannedAction tok)"
proof (cases tok)
  case TokSurfaceOps
  then show ?thesis by simp
next
  case (TokMove d)
  then show ?thesis by (cases d) (simp_all add: startsWith_def afterColon_def)
next
  case (TokUpgrade k)
  then show ?thesis by (cases k) (simp_all add: startsWith_def afterColon_def)
qed

lemma parseToken_word:
  assumes "word raw" and "toUpperCase raw = tokenText tok"
  shows "parseToken raw = Some (plannedAction tok)"
  unfolding parseToken_def trim_word [OF assms(1)] assms(2) by (rule parse_tokenText)

lemma parseLoop_planned:
  assumes "\<forall>raw \<in> set raws. word raw" and "map toUpperCase raws = map tokenText toks"
  shows "parseLoop raws acc = acc @ map plannedAction toks"
  using assms
proof (induction raws arbitrary: toks acc)
  case Nil
  then show ?case by simp
next
  case (Cons raw raws)
  from Cons.prems(2) obtain tok toks' where toks: "toks = tok # toks'"
    and hd: "toUpperCase raw = tokenText tok"
    and tl: "map toUpperCase raws = map tokenText toks'"
    by (cases toks) auto
  from Cons.prems(1) have w: "word raw" and ws: "\<forall>raw \<in> set raws. word raw"
    by simp_all
  from parseToken_word [OF w hd] Cons.IH [OF ws tl] show ?case
    by (simp add: toks)
qed

lemma schema_tokens:
  assumes "list_all tokenSchema (map toUpperCase raws)"
  shows "\<exists>toks. map toUpperCase raws = map tokenText toks"
  using assms
proof (induction raws)
  case Nil
  show ?case by simp
next
  case (Cons raw raws)
  then obtain toks where "map toUpperCase raws = map tokenText toks"
    by auto
  moreover from Cons.prems obtain tok where "toUpperCase raw = tokenText tok"
    by (auto simp: tokenSchema_iff)
  ultimately have "map toUpperCase (raw # raws) = map tokenText (tok # toks)"
    by simp
  then show ?case ..
qed

lemma validation_success:
  "v_success (validateExecution executionText planLength)
     \<longleftrightarrow> 1 \<le> length (tokenize executionText) \<and> int (length (tokenize executionText)) \<le> planLength
         \<and> (\<forall>t \<in> set (tokenize executionText). \<exists>tok. toUpperCase t = tokenText tok)"
  by (simp add: validateExecution_def Let_def list_all_iff tokenSchema_iff)

lemma validation_tokens: "v_tokens (validateExecution executionText planLength) = tokenize executionText"
  by (simp add: validateExecution_def Let_def)

lemma parse_after_validation:
  assumes "v_success (validateExecution executionText planLength)"
  shows "length (parseActionTokens executionText) = length (tokenize executionText)"
proof -
  from assms have "list_all tokenSchema (map toUpperCase (tokenize executionText))"
    by (simp add: validateExecution_def Let_def)
  then obtain toks where toks: "map toUpperCase (tokenize executionText) = map tokenText toks"
    using schema_tokens by blast
  with tokenize_words [of executionText] have "parseActionTokens executionText = map plannedAction toks"
    unfolding parseActionTokens_def by (simp add: parseLoop_planned)
  moreover from toks have "length toks = length (tokenize executionText)"
    by (metis length_map)
  ultimately show ?thesis by simp
qed

text \<open>Every text is such a sequence of tokens, for some white space and pieces.\<close>

lemma layout_exists:
  "\<exists>lead pieces. spaces lead \<and> separated pieces \<and> layout lead pieces = s"
proof (induction s rule: length_induct)
  case (1 s)
  define lead where "lead = takeWhile isSpace s"
  define rest where "rest = dropWhile isSpace s"
  have s: "s = lead @ rest" and lead: "spaces lead"
    unfolding lead_def rest_def spaces_def list_all_iff by (auto dest: set_takeWhileD)
  show ?case
  proof (cases "rest = []")
    case True
    with s lead have "spaces lead \<and> separated [] \<and> layout lead [] = s"
      by (simp add: layout_def)
    then show ?thesis by blast
  next
    case False
    then have start: "\<not> isSpace (hd rest)"
      unfolding rest_def by (metis hd_dropWhile)
    define t where "t = takeWhile (\<lambda>c. \<not> isSpace c) rest"
    define more where "more = dropWhile (\<lambda>c. \<not> isSpace c) rest"
    have rest: "rest = t @ more"
      unfolding t_def more_def by simp
    from False start have t: "word t"
      unfolding t_def word_def list_all_iff
      by (cases rest) (auto dest: set_takeWhileD)
    have more_start: "more = [] \<or> isSpace (hd more)"
      unfolding more_def using hd_dropWhile [of "\<lambda>c. \<not> isSpace c" rest] by auto
    from t have "length more < length s"
      unfolding s rest word_def by (cases t) simp_all
    with 1 obtain lead' pieces' where IH: "spaces lead'" "separated pieces'"
      "layout lead' pieces' = more"
      by blast
    have sep: "separated ((t, lead') # pieces')"
    proof (cases pieces')
      case Nil
      with t IH(1) show ?thesis by simp
    next
      case (Cons p ps)
      obtain u sp where p: "p = (u, sp)" by (cases p)
      from IH(2) Cons p have u: "word u"
        by (cases ps) simp_all
      have "lead' \<noteq> []"
      proof
        assume "lead' = []"
        with IH(3) Cons p have "more = u @ sp @ concat (map (\<lambda>(t, sep). t @ sep) ps)"
          by (simp add: layout_def)
        with word_ends [OF u] have "more \<noteq> []" "\<not> isSpace (hd more)"
          by (simp_all add: hd_append)
        with more_start show False by simp
      qed
      with t IH(1,2) Cons show ?thesis by simp
    qed
    have "layout lead ((t, lead') # pieces') = s"
      using IH(3) by (simp add: layout_def s rest)
    with lead sep show ?thesis by blast
  qed
qed

text \<open>
  Claim C2. Take an execution text that is a sequence of \<open>k\<close> tokens separated by white
  space. If \<open>k\<close> is between 1 and \<open>planLength\<close> and every token spells, in upper or lower
  case, a token of the vocabulary, then validation succeeds and parsing yields exactly
  \<open>k\<close> actions, the ones of the tokens in order. If some token spells no token of the
  vocabulary, or \<open>k\<close> is less than 1 or more than \<open>planLength\<close>, validation fails.
\<close>

theorem grammar_round_trip:
  assumes "spaces lead" and "separated pieces"
  shows "(1 \<le> length pieces \<and> int (length pieces) \<le> planLength
          \<and> map (\<lambda>p. toUpperCase (fst p)) pieces = map tokenText toks
          \<longrightarrow> v_success (validateExecution (layout lead pieces) planLength)
              \<and> parseActionTokens (layout lead pieces) = map plannedAction toks
              \<and> length (parseActionTokens (layout lead pieces)) = length pieces)
         \<and> ((\<exists>p \<in> set pieces. \<forall>tok. toUpperCase (fst p) \<noteq> tokenText tok)
              \<or> length pieces < 1 \<or> planLength < int (length pieces)
          \<longrightarrow> \<not> v_success (validateExecution (layout lead pieces) planLength))"
proof -
  have toks_eq: "tokenize (layout lead pieces) = map fst pieces"
    using assms by (rule tokenize_layout)
  have words: "\<forall>raw \<in> set (map fst pieces). word raw"
    using separated_words [OF assms(2)] by simp
  have valid: "v_success (validateExecution (layout lead pieces) planLength)
     \<longleftrightarrow> 1 \<le> length pieces \<and> int (length pieces) \<le> planLength
         \<and> (\<forall>p \<in> set pieces. \<exists>tok. toUpperCase (fst p) = tokenText tok)"
    unfolding validation_success toks_eq by simp
  have parse: "parseActionTokens (layout lead pieces) = map plannedAction toks"
    if "map (\<lambda>p. toUpperCase (fst p)) pieces = map tokenText toks"
  proof -
    from that have "map toUpperCase (map fst pieces) = map tokenText toks"
      by (simp add: comp_def)
    with words show ?thesis
      unfolding parseActionTokens_def toks_eq by (simp add: parseLoop_planned)
  qed
  have each: "\<forall>p \<in> set pieces. \<exists>tok. toUpperCase (fst p) = tokenText tok"
    if eq: "map (\<lambda>p. toUpperCase (fst p)) pieces = map tokenText toks"
  proof
    fix p assume "p \<in> set pieces"
    then have "toUpperCase (fst p) \<in> set (map (\<lambda>p. toUpperCase (fst p)) pieces)"
      by simp
    then have "toUpperCase (fst p) \<in> set (map tokenText toks)"
      unfolding eq .
    then show "\<exists>tok. toUpperCase (fst p) = tokenText tok"
      by auto
  qed
  have len: "length toks = length pieces"
    if "map (\<lambda>p. toUpperCase (fst p)) pieces = map tokenText toks"
    using that by (metis length_map)
  show ?thesis
  proof (intro conjI impI)
    assume a: "1 \<le> length pieces \<and> int (length pieces) \<le> planLength
          \<and> map (\<lambda>p. toUpperCase (fst p)) pieces = map tokenText toks"
    then have eq: "map (\<lambda>p. toUpperCase (fst p)) pieces = map tokenText toks"
      by simp
    from a each [OF eq] show "v_success (validateExecution (layout lead pieces) planLength)"
      unfolding valid by simp
    show "parseActionTokens (layout lead pieces) = map plannedAction toks"
      by (rule parse [OF eq])
    show "length (parseActionTokens (layout lead pieces)) = length pieces"
      unfolding parse [OF eq] using len [OF eq] by simp
  next
    assume "(\<exists>p \<in> set pieces. \<forall>tok. toUpperCase (fst p) \<noteq> tokenText tok)
              \<or> length pieces < 1 \<or> planLength < int (length pieces)"
    then show "\<not> v_success (validateExecution (layout lead pieces) planLength)"
      unfolding valid by auto
  qed
qed

lemma tokenText_not_MOVE_Z: "toUpperCase ''MOVE:Z'' \<noteq> tokenText tok"
proof (cases tok)
  case TokSurfaceOps
  then show ?thesis by (simp add: toUpperCase_def toUpperChar_def)
next
  case (TokMove d)
  then show ?thesis by (cases d) (simp_all add: toUpperCase_def toUpperChar_def)
next
  case (TokUpgrade k)
  then show ?thesis by (cases k) (simp_all add: toUpperCase_def toUpperChar_def)
qed

theorem grammar_round_trip_witness:
  "spaces '' ''
   \<and> separated [(''move:d'', ''  ''), (''Move:D'', '' ''), (''MOVE:R'', '' '')]
   \<and> v_success (validateExecution '' move:d  Move:D MOVE:R '' 3)
   \<and> parseActionTokens '' move:d  Move:D MOVE:R ''
       = [MOVE (Some ''D'') ''Planned action.'', MOVE (Some ''D'') ''Planned action.'',
          MOVE (Some ''R'') ''Planned action.'']
   \<and> separated [(''MOVE:Z'', [])]
   \<and> \<not> v_success (validateExecution ''MOVE:Z'' 3)"
proof -
  let ?pieces = "[(''move:d'', ''  ''), (''Move:D'', '' ''), (''MOVE:R'', '' '')]"
  let ?toks = "[TokMove DirD, TokMove DirD, TokMove DirR]"
  have sp: "spaces '' ''"
    by (simp add: spaces_def isSpace_def)
  have sep: "separated ?pieces"
    by (simp add: word_def spaces_def isSpace_def)
  have lay: "layout '' '' ?pieces = '' move:d  Move:D MOVE:R ''"
    by (simp add: layout_def)
  have prem: "1 \<le> length ?pieces \<and> int (length ?pieces) \<le> 3
              \<and> map (\<lambda>p. toUpperCase (fst p)) ?pieces = map tokenText ?toks"
    by (simp add: toUpperCase_def toUpperChar_def)
  from conjunct1 [OF grammar_round_trip [OF sp sep, of 3 ?toks], THEN mp, OF prem]
  have good: "v_success (validateExecution '' move:d  Move:D MOVE:R '' 3)"
    "parseActionTokens '' move:d  Move:D MOVE:R ''
       = [MOVE (Some ''D'') ''Planned action.'', MOVE (Some ''D'') ''Planned action.'',
          MOVE (Some ''R'') ''Planned action.'']"
    unfolding lay by simp_all
  have sp0: "spaces []"
    by (simp add: spaces_def)
  have sep0: "separated [(''MOVE:Z'', [])]"
    by (simp add: word_def spaces_def isSpace_def)
  have lay0: "layout [] [(''MOVE:Z'', [])] = ''MOVE:Z''"
    by (simp add: layout_def)
  have prem0: "(\<exists>p \<in> set [(''MOVE:Z'', [])]. \<forall>tok. toUpperCase (fst p) \<noteq> tokenText tok)
               \<or> length [(''MOVE:Z'', [])] < 1 \<or> 3 < int (length [(''MOVE:Z'', [])])"
    using tokenText_not_MOVE_Z by simp
  from conjunct2 [OF grammar_round_trip [OF sp0 sep0, of 3 "[]"], THEN mp, OF prem0]
  have bad: "\<not> v_success (validateExecution ''MOVE:Z'' 3)"
    unfolding lay0 .
  from sp sep good sep0 bad show ?thesis
    by blast
qed

section \<open>Validation, parsing and the exits of the engine\<close>

lemma requestCorrection_note:
  "requestCorrection cfg correction planLength = Some r \<Longrightarrow> resp_note r = ''openrouter-corrected''"
  by (auto simp: requestCorrection_def Let_def split: upstream.splits option.splits if_splits)

lemma correctOrFallback_note:
  "resp_note (fst (correctOrFallback cfg correction w state planLength noteText combinedText))
     = ''openrouter-corrected''
   \<or> resp_note (fst (correctOrFallback cfg correction w state planLength noteText combinedText))
     = noteText"
proof (cases "requestCorrection cfg correction planLength")
  case None
  then show ?thesis by (simp add: correctOrFallback_def Let_def badFormat_def)
next
  case (Some r)
  with requestCorrection_note [OF Some] show ?thesis
    by (simp add: correctOrFallback_def Let_def)
qed

lemma correctOrFallback_not_parse:
  "resp_note (fst (correctOrFallback cfg correction w state planLength
                     ''no-execution-tag'' combinedText)) \<noteq> ''bad-execution-parse''"
  "resp_note (fst (correctOrFallback cfg correction w state planLength
                     ''bad-execution-format'' combinedText)) \<noteq> ''bad-execution-parse''"
  using correctOrFallback_note [of cfg correction w state planLength
                                   "''no-execution-tag''" combinedText]
        correctOrFallback_note [of cfg correction w state planLength
                                   "''bad-execution-format''" combinedText]
  by auto

lemma parse_in_range:
  assumes "v_success (validateExecution executionText planLength)"
  shows "\<not> (length (parseActionTokens executionText) < 1
            \<or> int (length (parseActionTokens executionText)) > planLength)"
proof -
  from assms have "1 \<le> length (tokenize executionText)"
    and "int (length (tokenize executionText)) \<le> planLength"
    unfolding validation_success by blast+
  then show ?thesis
    unfolding parse_after_validation [OF assms] by linarith
qed

lemma afterReply_not_parse:
  "resp_note (fst (afterReply cfg correction w session state planLength payload
                     responseContent reasoningText)) \<noteq> ''bad-execution-parse''"
proof (cases "extractExecutionText (combineText responseContent reasoningText)")
  case None
  then show ?thesis
    by (simp add: afterReply_def Let_def correctOrFallback_not_parse)
next
  case (Some executionText)
  show ?thesis
  proof (cases "executionText = []")
    case True
    with Some show ?thesis
      by (simp add: afterReply_def Let_def correctOrFallback_not_parse)
  next
    case False
    note nonempty = this
    show ?thesis
    proof (cases "v_success (validateExecution executionText planLength)")
      case False
      with Some nonempty show ?thesis
        by (simp add: afterReply_def Let_def correctOrFallback_not_parse)
    next
      case True
      from parse_in_range [OF True]
      have "\<not> length (parseActionTokens executionText) < 1"
        and "\<not> int (length (parseActionTokens executionText)) > planLength"
        by simp_all
      with Some nonempty True show ?thesis
        by (simp add: afterReply_def Let_def)
    qed
  qed
qed

text \<open>
  Claim C10. Whenever validation of an execution text succeeds for a plan length, parsing
  the same text yields as many actions as validation counted tokens, hence at least 1 and
  at most the plan length. So the exit of \<open>callOpenRouterPlan\<close> with the note
  \<open>bad-execution-parse\<close> is never taken: no response carries that note.
\<close>

theorem parse_mismatch_unreachable:
  "(v_success (validateExecution executionText planLength) \<longrightarrow>
      length (parseActionTokens executionText)
        = length (v_tokens (validateExecution executionText planLength))
      \<and> 1 \<le> length (parseActionTokens executionText)
      \<and> int (length (parseActionTokens executionText)) \<le> planLength)
   \<and> resp_note (fst (callOpenRouterPlan cfg primary correction w state planLength sessionId))
       \<noteq> ''bad-execution-parse''"
proof (intro conjI impI)
  assume ok: "v_success (validateExecution executionText planLength)"
  show "length (parseActionTokens executionText)
        = length (v_tokens (validateExecution executionText planLength))"
    using parse_after_validation [OF ok] by (simp add: validation_tokens)
  from parse_in_range [OF ok]
  show "1 \<le> length (parseActionTokens executionText)"
    and "int (length (parseActionTokens executionText)) \<le> planLength"
    by linarith+
next
  show "resp_note (fst (callOpenRouterPlan cfg primary correction w state planLength sessionId))
        \<noteq> ''bad-execution-parse''"
    unfolding callOpenRouterPlan_def Let_def
    by (simp add: afterReply_not_parse split: prod.splits upstream.splits)
qed

theorem parse_mismatch_unreachable_witness:
  "v_success (validateExecution ''MOVE:D MOVE:D MOVE:R'' 3)
   \<and> length (parseActionTokens ''MOVE:D MOVE:D MOVE:R'')
       = length (v_tokens (validateExecution ''MOVE:D MOVE:D MOVE:R'' 3))
   \<and> 1 \<le> length (parseActionTokens ''MOVE:D MOVE:D MOVE:R'')
   \<and> int (length (parseActionTokens ''MOVE:D MOVE:D MOVE:R'')) \<le> 3
   \<and> resp_note (fst (callOpenRouterPlan defaultConfig (Replied None None) (Replied None None)
                       initialModule syntheticState 3 None)) \<noteq> ''bad-execution-parse''"
proof -
  have ok: "v_success (validateExecution ''MOVE:D MOVE:D MOVE:R'' 3)"
    by code_simp
  note inst = parse_mismatch_unreachable
                [of "''MOVE:D MOVE:D MOVE:R''" 3 defaultConfig "Replied None None"
                    "Replied None None" initialModule syntheticState None]
  from conjunct1 [OF inst, THEN mp, OF ok] conjunct2 [OF inst] ok show ?thesis
    by blast
qed

subsection \<open>The plan counter and the history after a call\<close>

text \<open>
  For every input and every outcome of the two requests, the plan counter goes up by one
  when the response carries the note \<open>openrouter\<close> and is left as it was otherwise, so
  also under the note \<open>openrouter-corrected\<close>. After a first reply the stored session has
  gained the summary of the payload and the text of that reply, whatever follows.
\<close>

lemma getSession_planCount: "planCount (snd (getSession w sessionId)) = planCount w"
  by (simp add: getSession_def Let_def split: option.splits)

lemma correctOrFallback_planCount:
  "planCount (snd (correctOrFallback cfg correction w state planLength noteText combinedText))
     = planCount w"
  by (simp add: correctOrFallback_def Let_def split: option.splits)

lemma correctOrFallback_not_direct:
  assumes "noteText \<noteq> ''openrouter''"
  shows "resp_note (fst (correctOrFallback cfg correction w state planLength noteText
                           combinedText)) \<noteq> ''openrouter''"
  using correctOrFallback_note [of cfg correction w state planLength noteText combinedText]
        assms
  by auto

lemma afterReply_planCount:
  "planCount (snd (afterReply cfg correction w session state planLength payload
                     responseContent reasoningText))
     = (if resp_note (fst (afterReply cfg correction w session state planLength payload
                             responseContent reasoningText)) = ''openrouter''
        then planCount w + 1 else planCount w)"
proof (cases "extractExecutionText (combineText responseContent reasoningText)")
  case None
  then show ?thesis
    by (simp add: afterReply_def Let_def correctOrFallback_planCount
                  correctOrFallback_not_direct storeSession_def)
next
  case (Some executionText)
  show ?thesis
  proof (cases "executionText = []")
    case True
    with Some show ?thesis
      by (simp add: afterReply_def Let_def correctOrFallback_planCount
                    correctOrFallback_not_direct storeSession_def)
  next
    case False
    note nonempty = this
    show ?thesis
    proof (cases "v_success (validateExecution executionText planLength)")
      case False
      with Some nonempty show ?thesis
        by (simp add: afterReply_def Let_def correctOrFallback_planCount
                      correctOrFallback_not_direct storeSession_def)
    next
      case True
      from parse_in_range [OF True]
      have "\<not> length (parseActionTokens executionText) < 1"
        and "\<not> int (length (parseActionTokens executionText)) > planLength"
        by simp_all
      with Some nonempty True show ?thesis
        by (simp add: afterReply_def Let_def storeSession_def)
    qed
  qed
qed

lemma callOpenRouterPlan_planCount:
  "planCount (snd (callOpenRouterPlan cfg primary correction w state planLength sessionId))
     = (if resp_note (fst (callOpenRouterPlan cfg primary correction w state planLength
                             sessionId)) = ''openrouter''
        then planCount w + 1 else planCount w)"
proof -
  obtain session0 w0 where gs: "getSession w sessionId = (session0, w0)"
    by (cases "getSession w sessionId")
  with getSession_planCount [of w sessionId] have w0: "planCount w0 = planCount w"
    by simp
  show ?thesis
  proof (cases primary)
    case (Threw errName errMessage abortedByTimeout)
    with gs w0 show ?thesis
      by (simp add: callOpenRouterPlan_def Let_def storeSession_def)
  next
    case (Replied content reasoningText)
    with gs w0 show ?thesis
      by (simp add: callOpenRouterPlan_def Let_def storeSession_def afterReply_planCount)
  qed
qed

lemma appendHistory_id: "session_id (appendHistory session r c) = session_id session"
  by (simp add: appendHistory_def Let_def)

lemma correctOrFallback_sessions:
  "sessions (snd (correctOrFallback cfg correction w state planLength noteText combinedText))
     = sessions w"
  by (simp add: correctOrFallback_def Let_def split: option.splits)

lemma afterReply_history:
  "sessions (snd (afterReply cfg correction w session state planLength payload
                    responseContent reasoningText)) (session_id session)
     = Some (appendHistory (appendHistory session User (PayloadSummary payload)) Assistant
               (Text (if combineText responseContent reasoningText = [] then ''<empty>''
                      else combineText responseContent reasoningText)))"
  by (simp add: afterReply_def Let_def correctOrFallback_sessions storeSession_def
                appendHistory_id split: option.splits)

text \<open>
  Claim C5, the behaviour of the program where it departs from the claim. The first reply
  has no \<open>execution\<close> section and the corrective reply is valid: the response carries the
  note \<open>openrouter-corrected\<close>, the history of the session has gained the summary of the
  payload as a user turn and the text of the first reply as an assistant turn, and the
  plan counter is what it was. With the valid text as the first reply the note is
  \<open>openrouter\<close> and the plan counter has gone up by one.
\<close>

theorem corrected_plan_leaves_plan_counter:
  "resp_note (fst (callOpenRouterPlan (defaultConfig \<lparr> OPENROUTER_API_KEY := ''k'' \<rparr>)
          (Replied (Some ''I will move down.'') None)
          (Replied (Some ''<execution>MOVE:D</execution>'') None)
          initialModule exampleState 3 None)) = ''openrouter-corrected''
   \<and> planCount (snd (callOpenRouterPlan (defaultConfig \<lparr> OPENROUTER_API_KEY := ''k'' \<rparr>)
          (Replied (Some ''I will move down.'') None)
          (Replied (Some ''<execution>MOVE:D</execution>'') None)
          initialModule exampleState 3 None)) = planCount initialModule
   \<and> Option.bind
         (sessions (snd (callOpenRouterPlan (defaultConfig \<lparr> OPENROUTER_API_KEY := ''k'' \<rparr>)
            (Replied (Some ''I will move down.'') None)
            (Replied (Some ''<execution>MOVE:D</execution>'') None)
            initialModule exampleState 3 None)) ''default'')
         history
       = Some [(User, PayloadSummary
                        (buildPayload
                           (updateFuelRunCount
                              (updateMemory (newSession ''default'') exampleState) exampleState)
                           exampleState 3)),
               (Assistant, Text ''I will move down.'')]
   \<and> resp_note (fst (callOpenRouterPlan (defaultConfig \<lparr> OPENROUTER_API_KEY := ''k'' \<rparr>)
          (Replied (Some ''<execution>MOVE:D</execution>'') None)
          (Replied None None)
          initialModule exampleState 3 None)) = ''openrouter''
   \<and> planCount (snd (callOpenRouterPlan (defaultConfig \<lparr> OPENROUTER_API_KEY := ''k'' \<rparr>)
          (Replied (Some ''<execution>MOVE:D</execution>'') None)
          (Replied None None)
          initialModule exampleState 3 None)) = planCount initialModule + 1"
  by code_simp

end
